theory Spec2Isabelle
  imports Main "HOL-Library.AList"
begin

section \<open>Step registration and fixture injection of pytest-bdd (\<^verbatim>\<open>pytest_bdd/steps.py\<close>)\<close>

text \<open>
  The development follows \<^verbatim>\<open>src/pytest_bdd/steps.py\<close>. Python strings are \<open>string\<close>,
  Python's unbounded integers of \<^verbatim>\<open>itertools.count(1)\<close> are \<open>nat\<close> (they start at 1 and only
  grow), a raise is a value of the type \<open>error\<close>, and every mutation of a dictionary or a
  list is written as a new state that the function returns.
\<close>

subsection \<open>Names\<close>

text \<open>
  \<^verbatim>\<open>str(i)\<close> of a non-negative Python integer: its decimal digits, most significant first,
  without leading zeros.
\<close>

definition digits :: string where
  "digits = ''0123456789''"

fun str_nat :: "nat \<Rightarrow> string" where
  "str_nat n = (if n < 10 then [digits ! n] else str_nat (n div 10) @ [digits ! (n mod 10)])"

declare str_nat.simps [simp del]

text \<open>
  \<^verbatim>\<open>class StepNamePrefix(enum.Enum)\<close> with its two members. \<open>StepNamePrefix_value\<close> is the
  member's \<^verbatim>\<open>.value\<close>, \<open>StepNamePrefix_name\<close> its \<^verbatim>\<open>.name\<close>. An f-string formats a member of
  a plain \<^verbatim>\<open>enum.Enum\<close> with \<^verbatim>\<open>Enum.__format__\<close>, which is \<^verbatim>\<open>str(member)\<close>, the text
  \<^verbatim>\<open>ClassName.member_name\<close>: that is \<open>StepNamePrefix_str\<close>.
\<close>

datatype StepNamePrefix = step_def | step_impl

fun StepNamePrefix_value :: "StepNamePrefix \<Rightarrow> string" where
  "StepNamePrefix_value step_def = ''pytestbdd_stepdef''"
| "StepNamePrefix_value step_impl = ''pytestbdd_stepimpl''"

fun StepNamePrefix_name :: "StepNamePrefix \<Rightarrow> string" where
  "StepNamePrefix_name step_def = ''step_def''"
| "StepNamePrefix_name step_impl = ''step_impl''"

definition StepNamePrefix_str :: "StepNamePrefix \<Rightarrow> string" where
  "StepNamePrefix_str m = ''StepNamePrefix.'' @ StepNamePrefix_name m"

text \<open>\<^verbatim>\<open>return f"{StepNamePrefix.step_impl}_{type_}_{name}"\<close>\<close>

definition get_step_fixture_name :: "string \<Rightarrow> string \<Rightarrow> string" where
  "get_step_fixture_name name type' =
     StepNamePrefix_str step_impl @ ''_'' @ type' @ ''_'' @ name"

text \<open>
  \<^verbatim>\<open>find_unique_name(name, seen)\<close>. The iterable \<^verbatim>\<open>seen\<close> is a list, \<^verbatim>\<open>set(seen)\<close> its set of
  elements. \<open>find_unique_name_from name seen i\<close> is the loop \<^verbatim>\<open>for i in count(1)\<close> from the
  counter value \<open>i\<close> on: it returns the first \<^verbatim>\<open>f"{name}_{i}"\<close> that is not in \<^verbatim>\<open>seen\<close>.
\<close>

function find_unique_name_from :: "string \<Rightarrow> string list \<Rightarrow> nat \<Rightarrow> string" where
  "find_unique_name_from name seen i =
     (if name @ ''_'' @ str_nat i \<notin> set seen then name @ ''_'' @ str_nat i
      else find_unique_name_from name seen (Suc i))"
  by pat_completeness auto

text \<open>
  The loop ends because the decimal rendering is injective: only finitely many counter
  values give a name that is in the finite set \<^verbatim>\<open>seen\<close>.
\<close>

lemma digits_inj: "a < 10 \<Longrightarrow> b < 10 \<Longrightarrow> digits ! a = digits ! b \<Longrightarrow> a = b"
proof -
  assume a: "a < 10" and b: "b < 10" and e: "digits ! a = digits ! b"
  have d: "distinct digits" by (simp add: digits_def)
  have l: "length digits = 10" by (simp add: digits_def)
  from d a b e l show "a = b" by (simp add: nth_eq_iff_index_eq)
qed

lemma str_nat_nonempty: "str_nat n \<noteq> []"
  by (subst str_nat.simps) simp

lemma str_nat_small: "n < 10 \<Longrightarrow> str_nat n = [digits ! n]"
  by (subst str_nat.simps) simp

lemma str_nat_large:
  "\<not> n < 10 \<Longrightarrow> str_nat n = str_nat (n div 10) @ [digits ! (n mod 10)]"
  by (subst str_nat.simps) simp

lemma str_nat_inj: "str_nat n = str_nat m \<Longrightarrow> n = m"
proof (induction n arbitrary: m rule: str_nat.induct)
  case (1 n)
  show ?case
  proof (cases "n < 10")
    case nlt: True
    show ?thesis
    proof (cases "m < 10")
      case True
      with nlt "1.prems" show ?thesis
        by (simp add: str_nat_small digits_inj)
    next
      case False
      with nlt "1.prems" str_nat_nonempty [of "m div 10"] show ?thesis
        by (simp add: str_nat_small str_nat_large)
    qed
  next
    case nge: False
    show ?thesis
    proof (cases "m < 10")
      case True
      with nge "1.prems" str_nat_nonempty [of "n div 10"] show ?thesis
        by (simp add: str_nat_small str_nat_large)
    next
      case False
      with nge "1.prems" have e1: "str_nat (n div 10) = str_nat (m div 10)"
        and e2: "digits ! (n mod 10) = digits ! (m mod 10)"
        by (simp_all add: str_nat_large)
      from "1.IH" [OF nge e1] have d: "n div 10 = m div 10" .
      from e2 have r: "n mod 10 = m mod 10" by (simp add: digits_inj)
      from d r show ?thesis by (metis div_mult_mod_eq)
    qed
  qed
qed

lemma finite_suffixes: "finite {j. name @ ''_'' @ str_nat j \<in> set seen}"
proof -
  have "inj (\<lambda>j. name @ ''_'' @ str_nat j)"
    by (rule injI) (simp add: str_nat_inj)
  then have "finite ((\<lambda>j. name @ ''_'' @ str_nat j) -` set seen)"
    by (simp add: finite_vimageI)
  then show ?thesis by (simp add: vimage_def)
qed

termination find_unique_name_from
proof (relation "measure (\<lambda>(name, seen, i). card {j. i \<le> j \<and> name @ ''_'' @ str_nat j \<in> set seen})")
  show "wf (measure (\<lambda>(name, seen, i). card {j. i \<le> j \<and> name @ ''_'' @ str_nat j \<in> set seen}))"
    by simp
next
  fix name :: string and seen :: "string list" and i :: nat
  assume "\<not> name @ ''_'' @ str_nat i \<notin> set seen"
  then have mem: "name @ ''_'' @ str_nat i \<in> set seen" by simp
  let ?A = "{j. i \<le> j \<and> name @ ''_'' @ str_nat j \<in> set seen}"
  let ?B = "{j. Suc i \<le> j \<and> name @ ''_'' @ str_nat j \<in> set seen}"
  have fin: "finite ?A" using finite_suffixes [of name seen] by simp
  have "i \<in> ?A" "i \<notin> ?B" using mem by simp_all
  moreover have "?B \<subseteq> ?A" by auto
  ultimately have "?B \<subset> ?A" by blast
  with fin have "card ?B < card ?A" by (rule psubset_card_mono)
  then show "((name, seen, Suc i), (name, seen, i)) \<in>
      measure (\<lambda>(name, seen, i). card {j. i \<le> j \<and> name @ ''_'' @ str_nat j \<in> set seen})"
    by simp
qed

declare find_unique_name_from.simps [simp del]

definition find_unique_name :: "string \<Rightarrow> string list \<Rightarrow> string" where
  "find_unique_name name seen =
     (if name \<notin> set seen then name else find_unique_name_from name seen 1)"

subsection \<open>Properties of the name allocator\<close>

lemma find_unique_name_from_least:
  "find_unique_name_from name seen i =
     name @ ''_'' @ str_nat (LEAST j. i \<le> j \<and> name @ ''_'' @ str_nat j \<notin> set seen)"
proof (induction name seen i rule: find_unique_name_from.induct)
  case (1 name seen i)
  show ?case
  proof (cases "name @ ''_'' @ str_nat i \<in> set seen")
    case False
    then have "(LEAST j. i \<le> j \<and> name @ ''_'' @ str_nat j \<notin> set seen) = i"
      by (intro Least_equality) simp_all
    with False show ?thesis by (subst find_unique_name_from.simps) simp
  next
    case True
    then have "(\<lambda>j. i \<le> j \<and> name @ ''_'' @ str_nat j \<notin> set seen) =
               (\<lambda>j. Suc i \<le> j \<and> name @ ''_'' @ str_nat j \<notin> set seen)"
      by (auto simp: fun_eq_iff Suc_le_eq le_less)
    with True "1.IH" show ?thesis by (subst find_unique_name_from.simps) simp
  qed
qed

lemma find_unique_name_from_fresh: "find_unique_name_from name seen i \<notin> set seen"
  by (induction name seen i rule: find_unique_name_from.induct)
     (subst find_unique_name_from.simps, simp)

lemma find_unique_name_fresh: "find_unique_name name seen \<notin> set seen"
  by (simp add: find_unique_name_def find_unique_name_from_fresh)

text \<open>
  Claim C2. For every base name \<open>b\<close> and every finite collection \<open>S\<close> of existing names,
  \<open>find_unique_name b S\<close> returns: \<open>b\<close> itself when \<open>b\<close> is not in \<open>S\<close>, and otherwise \<open>b\<close>
  followed by \<^verbatim>\<open>_i\<close> for the least positive integer \<open>i\<close> whose suffixed name is not in
  \<open>S\<close>. The result is never a member of \<open>S\<close>. The allocator is a total function of its two
  arguments (the loop is proved to end), so the same inputs give the same output.
\<close>

theorem find_unique_name_spec:
  "find_unique_name b S =
     (if b \<notin> set S then b
      else b @ ''_'' @ str_nat (LEAST i. 1 \<le> i \<and> b @ ''_'' @ str_nat i \<notin> set S))
   \<and> find_unique_name b S \<notin> set S"
proof
  show "find_unique_name b S =
     (if b \<notin> set S then b
      else b @ ''_'' @ str_nat (LEAST i. 1 \<le> i \<and> b @ ''_'' @ str_nat i \<notin> set S))"
    by (simp add: find_unique_name_def find_unique_name_from_least)
  show "find_unique_name b S \<notin> set S"
    by (rule find_unique_name_fresh)
qed

text \<open>
  The allocator on a scope that already holds the base name and its first suffix: the
  second suffix is chosen, and it is the one the characterisation of C2 names.
\<close>

theorem find_unique_name_spec_witness:
  "find_unique_name ''a'' [''a'', ''a_1'', ''a_3''] = ''a_2''
   \<and> ''a_2'' = ''a'' @ ''_'' @ str_nat (LEAST i. 1 \<le> i \<and> ''a'' @ ''_'' @ str_nat i \<notin> set [''a'', ''a_1'', ''a_3''])
   \<and> find_unique_name ''a'' [''a'', ''a_1'', ''a_3''] \<notin> set [''a'', ''a_1'', ''a_3'']"
proof -
  let ?S = "[''a'', ''a_1'', ''a_3'']"
  have v: "find_unique_name ''a'' ?S = ''a_2''"
    by (simp add: find_unique_name_def find_unique_name_from.simps str_nat.simps digits_def)
  note s = find_unique_name_spec [of "''a''" ?S]
  have m: "\<not> ''a'' \<notin> set ?S" by simp
  from s have "find_unique_name ''a'' ?S =
      (if ''a'' \<notin> set ?S then ''a''
       else ''a'' @ ''_'' @ str_nat (LEAST i. 1 \<le> i \<and> ''a'' @ ''_'' @ str_nat i \<notin> set ?S))"
    by (rule conjunct1)
  with m have "find_unique_name ''a'' ?S =
      ''a'' @ ''_'' @ str_nat (LEAST i. 1 \<le> i \<and> ''a'' @ ''_'' @ str_nat i \<notin> set ?S)"
    by (simp only: if_False)
  with v have l: "''a_2'' =
      ''a'' @ ''_'' @ str_nat (LEAST i. 1 \<le> i \<and> ''a'' @ ''_'' @ str_nat i \<notin> set ?S)"
    by (simp only:)
  from s have f: "find_unique_name ''a'' ?S \<notin> set ?S"
    by (rule conjunct2)
  from v l f show ?thesis by (intro conjI)
qed

subsection \<open>Step definition contexts and the decorators\<close>

text \<open>
  The exceptions the model distinguishes. \<open>Raised\<close> stands for any exception raised by
  code the module calls (a step implementation, a converter, a constructor of the host).
\<close>

datatype error = KeyError | ValueError | AttributeError | FixtureLookupError
  | StepDefinitionNotFound | AssertionError | Raised string


text \<open>
  Modelled from the spec: the Step Parser of \<^verbatim>\<open>pytest_bdd/parsers.py\<close>, which is not among the
  sources. The spec gives it two operations: an identifying name (the source reads it as
  \<^verbatim>\<open>parser.name\<close>) and \<^verbatim>\<open>match(text)\<close>, which answers no-match or the extracted named
  arguments.
\<close>

record 'v StepParser =
  identifying_name :: string
  match :: "string \<Rightarrow> (string \<times> 'v) list option"

text \<open>
  Modelled from the spec: \<^verbatim>\<open>get_parser\<close> of \<^verbatim>\<open>pytest_bdd/parsers.py\<close>. A bare literal string
  becomes an exact-match parser (it extracts no argument); a parser is taken as it is.
\<close>

definition string_parser :: "string \<Rightarrow> 'v StepParser" where
  "string_parser s = \<lparr>identifying_name = s, match = (\<lambda>text. if text = s then Some [] else None)\<rparr>"

definition get_parser :: "string + 'v StepParser \<Rightarrow> 'v StepParser" where
  "get_parser step_name = (case step_name of Inl s \<Rightarrow> string_parser s | Inr p \<Rightarrow> p)"

text \<open>
  The step types of \<^verbatim>\<open>pytest_bdd/types.py\<close>, with the values the annotation
  \<^verbatim>\<open>Literal["given", "when", "then"]\<close> of the source gives.
\<close>

definition GIVEN :: string where "GIVEN = ''given''"
definition WHEN :: string where "WHEN = ''when''"
definition THEN :: string where "THEN = ''then''"

text \<open>
  \<^verbatim>\<open>@dataclass class StepFunctionContext\<close>. The step function has an arbitrary type \<open>'f\<close>:
  nothing in this module applies it.
\<close>

record ('f, 'v) StepFunctionContext =
  type :: string
  step_func :: 'f
  parser :: "'v StepParser"
  converters :: "string \<rightharpoonup> ('v \<Rightarrow> error + 'v)"
  target_fixture :: "string option"

text \<open>
  The closure \<^verbatim>\<open>step_function_marker\<close>: calling it (field \<open>call\<close>, a function of no
  argument) returns the captured context, and the attribute \<^verbatim>\<open>_pytest_bdd_step_context\<close>
  holds the same context. An object bound in a module namespace is such a marker
  registered as a fixture under a name, \<^verbatim>\<open>pytest.fixture(name=...)(marker)\<close>, or a plain
  function. A namespace is a Python dictionary, kept as an association list in insertion
  order; \<open>modules\<close> gives each module's namespace by the module's name.
\<close>

record ('f, 'v) step_function_marker =
  call :: "unit \<Rightarrow> ('f, 'v) StepFunctionContext"
  pytest_bdd_step_context :: "('f, 'v) StepFunctionContext"

datatype ('f, 'v) pyobj = Fixture string "('f, 'v) step_function_marker" | Function 'f

type_synonym ('f, 'v) namespace = "(string \<times> ('f, 'v) pyobj) list"
type_synonym ('f, 'v) modules = "string \<Rightarrow> ('f, 'v) namespace"

text \<open>
  Modelled from the spec: \<^verbatim>\<open>get_caller_module_locals\<close> of \<^verbatim>\<open>pytest_bdd/utils.py\<close>, which is
  not among the sources. It returns the namespace of the scope that applied the decorator
  (named \<open>caller\<close> here), not the one of the module that defines the decorator.
\<close>

definition get_caller_module_locals :: "string \<Rightarrow> ('f, 'v) modules \<Rightarrow> ('f, 'v) namespace" where
  "get_caller_module_locals caller modules = modules caller"

definition pytest_fixture :: "string \<Rightarrow> ('f, 'v) step_function_marker \<Rightarrow> ('f, 'v) pyobj" where
  "pytest_fixture name f = Fixture name f"

text \<open>
  \<^verbatim>\<open>f"{StepNamePrefix.step_def}_{step_type}_{parser.name}"\<close>, the base name handed to
  \<open>find_unique_name\<close>.
\<close>

definition step_def_name :: "string \<Rightarrow> string \<Rightarrow> string" where
  "step_def_name step_type parser_name =
     StepNamePrefix_str step_def @ ''_'' @ step_type @ ''_'' @ parser_name"

text \<open>
  The inner function \<^verbatim>\<open>decorator(func)\<close> of \<^verbatim>\<open>_step_decorator\<close>, with the variables it
  captures as its first arguments. The assignment to \<^verbatim>\<open>caller_locals[fixture_step_name]\<close>
  mutates the caller's namespace; the result is the returned function and the new
  namespaces.
\<close>

definition decorator ::
  "string \<Rightarrow> string + 'v StepParser \<Rightarrow> (string \<rightharpoonup> ('v \<Rightarrow> error + 'v)) \<Rightarrow> string option
   \<Rightarrow> string \<Rightarrow> 'f \<Rightarrow> ('f, 'v) modules \<Rightarrow> 'f \<times> ('f, 'v) modules" where
  "decorator step_type step_name converters' target_fixture' caller func modules =
     (let parser' = get_parser step_name;
          ctx = \<lparr>type = step_type, step_func = func, parser = parser',
                 converters = converters', target_fixture = target_fixture'\<rparr>;
          step_function_marker = \<lparr>call = (\<lambda>_. ctx), pytest_bdd_step_context = ctx\<rparr>;
          caller_locals = get_caller_module_locals caller modules;
          fixture_step_name = find_unique_name
            (step_def_name step_type (identifying_name parser')) (map fst caller_locals)
      in (func, modules(caller :=
            AList.update fixture_step_name (pytest_fixture fixture_step_name step_function_marker)
              caller_locals)))"

text \<open>\<^verbatim>\<open>_step_decorator\<close>: a missing \<^verbatim>\<open>converters\<close> becomes the empty dictionary.\<close>

definition step_decorator ::
  "string \<Rightarrow> string + 'v StepParser \<Rightarrow> (string \<rightharpoonup> ('v \<Rightarrow> error + 'v)) option \<Rightarrow> string option
   \<Rightarrow> string \<Rightarrow> 'f \<Rightarrow> ('f, 'v) modules \<Rightarrow> 'f \<times> ('f, 'v) modules" where
  "step_decorator step_type step_name converters' target_fixture' =
     (let converters'' = (case converters' of None \<Rightarrow> Map.empty | Some c \<Rightarrow> c)
      in decorator step_type step_name converters'' target_fixture')"

text \<open>The three public decorators \<^verbatim>\<open>given\<close>, \<^verbatim>\<open>when\<close> and \<^verbatim>\<open>then\<close>.\<close>

definition given ::
  "string + 'v StepParser \<Rightarrow> (string \<rightharpoonup> ('v \<Rightarrow> error + 'v)) option \<Rightarrow> string option
   \<Rightarrow> string \<Rightarrow> 'f \<Rightarrow> ('f, 'v) modules \<Rightarrow> 'f \<times> ('f, 'v) modules" where
  "given name converters' target_fixture' = step_decorator GIVEN name converters' target_fixture'"

definition when' ::
  "string + 'v StepParser \<Rightarrow> (string \<rightharpoonup> ('v \<Rightarrow> error + 'v)) option \<Rightarrow> string option
   \<Rightarrow> string \<Rightarrow> 'f \<Rightarrow> ('f, 'v) modules \<Rightarrow> 'f \<times> ('f, 'v) modules" where
  "when' name converters' target_fixture' = step_decorator WHEN name converters' target_fixture'"

definition then' ::
  "string + 'v StepParser \<Rightarrow> (string \<rightharpoonup> ('v \<Rightarrow> error + 'v)) option \<Rightarrow> string option
   \<Rightarrow> string \<Rightarrow> 'f \<Rightarrow> ('f, 'v) modules \<Rightarrow> 'f \<times> ('f, 'v) modules" where
  "then' name converters' target_fixture' = step_decorator THEN name converters' target_fixture'"

subsection \<open>Properties of the decorators\<close>

lemma update_fresh: "k \<notin> fst ` set al \<Longrightarrow> AList.update k v al = al @ [(k, v)]"
  by (induction al) auto


lemma decorator_result:
  "decorator t sn cv tf caller f ms =
     (f, ms(caller := ms caller @
        [(find_unique_name (step_def_name t (identifying_name (get_parser sn)))
            (map fst (ms caller)),
          Fixture (find_unique_name (step_def_name t (identifying_name (get_parser sn)))
            (map fst (ms caller)))
           \<lparr>call = (\<lambda>_. \<lparr>type = t, step_func = f, parser = get_parser sn, converters = cv, target_fixture = tf\<rparr>),
            pytest_bdd_step_context =
              \<lparr>type = t, step_func = f, parser = get_parser sn, converters = cv, target_fixture = tf\<rparr>\<rparr>)]))"
proof -
  let ?k = "find_unique_name (step_def_name t (identifying_name (get_parser sn)))
            (map fst (ms caller))"
  have "?k \<notin> set (map fst (ms caller))" by (rule find_unique_name_fresh)
  then have "?k \<notin> fst ` set (ms caller)" by simp
  then show ?thesis
    by (simp add: decorator_def Let_def get_caller_module_locals_def pytest_fixture_def
        update_fresh)
qed

lemma string_parser_name: "identifying_name (string_parser s) = s"
  by (simp add: string_parser_def)

lemma find_unique_name_extends: "\<exists>sfx. find_unique_name b S = b @ sfx"
  by (simp add: find_unique_name_def find_unique_name_from_least)

lemma step_decorator_result:
  "step_decorator t sn cv tf caller f ms =
     decorator t sn (case cv of None \<Rightarrow> Map.empty | Some c \<Rightarrow> c) tf caller f ms"
  by (simp add: step_decorator_def)

text \<open>
  Claim C3. Applying a step decorator to a callable \<open>f\<close> returns \<open>f\<close> itself, for
  \<^verbatim>\<open>_step_decorator\<close> and for each of \<^verbatim>\<open>given\<close>, \<^verbatim>\<open>when\<close> and \<^verbatim>\<open>then\<close>. Decoration does not
  invoke \<open>f\<close>: its whole effect is one new entry of the caller's namespace, in which \<open>f\<close>
  is stored as the field \<open>step_func\<close> and applied nowhere. Stacking a second decorator on
  the returned function gives \<open>f\<close> again and a second, independent entry under a
  different identifier.
\<close>

theorem step_decorator_returns_func:
  "let r1 = step_decorator t1 sn1 cv1 tf1 caller f ms;
       r2 = step_decorator t2 sn2 cv2 tf2 caller (fst r1) (snd r1);
       k1 = find_unique_name
              (step_def_name t1 (identifying_name (get_parser sn1)))
              (map fst (ms caller));
       c1 = \<lparr>type = t1, step_func = f, parser = get_parser sn1,
              converters = (case cv1 of None \<Rightarrow> Map.empty | Some c \<Rightarrow> c), target_fixture = tf1\<rparr>;
       k2 = find_unique_name
              (step_def_name t2 (identifying_name (get_parser sn2)))
              (map fst (ms caller) @ [k1]);
       c2 = \<lparr>type = t2, step_func = f, parser = get_parser sn2,
              converters = (case cv2 of None \<Rightarrow> Map.empty | Some c \<Rightarrow> c), target_fixture = tf2\<rparr>
   in fst r1 = f \<and> fst r2 = f
    \<and> fst (given sn1 cv1 tf1 caller f ms) = f
    \<and> fst (when' sn1 cv1 tf1 caller f ms) = f
    \<and> fst (then' sn1 cv1 tf1 caller f ms) = f
    \<and> snd r1 = ms(caller := ms caller @
          [(k1, Fixture k1 \<lparr>call = (\<lambda>_. c1), pytest_bdd_step_context = c1\<rparr>)])
    \<and> snd r2 = ms(caller := ms caller @
          [(k1, Fixture k1 \<lparr>call = (\<lambda>_. c1), pytest_bdd_step_context = c1\<rparr>),
           (k2, Fixture k2 \<lparr>call = (\<lambda>_. c2), pytest_bdd_step_context = c2\<rparr>)])
    \<and> k1 \<noteq> k2"
proof -
  let ?k1 = "find_unique_name
      (step_def_name t1 (identifying_name (get_parser sn1)))
      (map fst (ms caller))"
  let ?k2 = "find_unique_name
      (step_def_name t2 (identifying_name (get_parser sn2)))
      (map fst (ms caller) @ [?k1])"
  have "?k2 \<notin> set (map fst (ms caller) @ [?k1])" by (rule find_unique_name_fresh)
  then have ne: "?k1 \<noteq> ?k2" by auto
  show ?thesis
    unfolding Let_def
    by (intro conjI)
       (simp_all add: given_def when'_def then'_def step_decorator_result decorator_result ne)
qed

text \<open>
  Concrete inputs for the examples: step implementations that take their keyword
  arguments and return a string or raise, an interpreter whose modules are all empty, and
  an implementation that raises whenever it is invoked.
\<close>

type_synonym step_impl = "(string \<rightharpoonup> string) \<Rightarrow> error + string"

definition no_modules :: "(step_impl, string) modules" where
  "no_modules = (\<lambda>_. [])"

definition raising_step :: "(string \<rightharpoonup> string) \<Rightarrow> error + string" where
  "raising_step kwargs = Inl (Raised ''the step implementation was invoked'')"

text \<open>
  The docstring's example of two \<^verbatim>\<open>given\<close> decorators stacked on one function, with an
  implementation that would raise if decoration invoked it.
\<close>

theorem step_decorator_returns_func_witness:
  "fst (step_decorator GIVEN (Inl ''there is an article'') None None ''test_article''
          raising_step no_modules) = raising_step
   \<and> fst (step_decorator GIVEN (Inl ''I have an article'') None None ''test_article''
          raising_step
          (snd (step_decorator GIVEN (Inl ''there is an article'') None None ''test_article''
             raising_step no_modules))) = raising_step
   \<and> map fst (snd (step_decorator GIVEN (Inl ''I have an article'') None None ''test_article''
          raising_step
          (snd (step_decorator GIVEN (Inl ''there is an article'') None None ''test_article''
             raising_step no_modules))) ''test_article'')
       = [''StepNamePrefix.step_def_given_there is an article'',
          ''StepNamePrefix.step_def_given_I have an article'']"
proof -
  let ?r1 = "step_decorator GIVEN (Inl ''there is an article'') None None ''test_article''
      raising_step no_modules"
  let ?r2 = "step_decorator GIVEN (Inl ''I have an article'') None None ''test_article''
      raising_step (snd ?r1)"
  note s = step_decorator_returns_func [of GIVEN "Inl ''there is an article''" None None
      "''test_article''" raising_step no_modules GIVEN "Inl ''I have an article''" None None,
      unfolded Let_def]
  have a: "fst ?r1 = raising_step"
    by (rule s [THEN conjunct1])
  have "fst (step_decorator GIVEN (Inl ''I have an article'') None None ''test_article''
      (fst ?r1) (snd ?r1)) = raising_step"
    by (rule s [THEN conjunct2, THEN conjunct1])
  then have b: "fst ?r2 = raising_step" by (simp only: a)
  have "snd (step_decorator GIVEN (Inl ''I have an article'') None None ''test_article''
      (fst ?r1) (snd ?r1)) ''test_article'' =
      [(''StepNamePrefix.step_def_given_there is an article'',
        Fixture ''StepNamePrefix.step_def_given_there is an article''
          \<lparr>call = (\<lambda>_. \<lparr>type = GIVEN, step_func = raising_step,
                parser = get_parser (Inl ''there is an article''), converters = Map.empty,
                target_fixture = None\<rparr>),
           pytest_bdd_step_context = \<lparr>type = GIVEN, step_func = raising_step,
                parser = get_parser (Inl ''there is an article''), converters = Map.empty,
                target_fixture = None\<rparr>\<rparr>),
       (''StepNamePrefix.step_def_given_I have an article'',
        Fixture ''StepNamePrefix.step_def_given_I have an article''
          \<lparr>call = (\<lambda>_. \<lparr>type = GIVEN, step_func = raising_step,
                parser = get_parser (Inl ''I have an article''), converters = Map.empty,
                target_fixture = None\<rparr>),
           pytest_bdd_step_context = \<lparr>type = GIVEN, step_func = raising_step,
                parser = get_parser (Inl ''I have an article''), converters = Map.empty,
                target_fixture = None\<rparr>\<rparr>)]"
    by (subst s [THEN conjunct2, THEN conjunct2, THEN conjunct2, THEN conjunct2, THEN conjunct2,
          THEN conjunct2, THEN conjunct1])
       (simp add: find_unique_name_def step_def_name_def StepNamePrefix_str_def
          get_parser_def string_parser_name GIVEN_def no_modules_def)
  then have c: "map fst (snd ?r2 ''test_article'') =
      [''StepNamePrefix.step_def_given_there is an article'',
       ''StepNamePrefix.step_def_given_I have an article'']"
    by (simp only: a list.map fst_conv)
  from a b c show ?thesis by (intro conjI)
qed

text \<open>
  Claim C5. An application of a step decorator constructs one context \<open>c\<close>, whose
  converters are the empty mapping when none are given, and appends exactly one entry to
  the namespace of the caller's module: under the identifier \<open>k\<close> that
  \<open>find_unique_name\<close> allocates (which was not bound there before) it binds a fixture
  named \<open>k\<close> whose zero-argument function returns exactly \<open>c\<close>. Every other name of the
  caller's namespace keeps its binding, and every other module (the decorator's own
  module among them) keeps its namespace.
\<close>

theorem step_decorator_registers_context:
  "let ms' = snd (step_decorator t sn cv tf caller f ms);
       k = find_unique_name (step_def_name t (identifying_name (get_parser sn)))
             (map fst (ms caller));
       c = \<lparr>type = t, step_func = f, parser = get_parser sn,
             converters = (case cv of None \<Rightarrow> Map.empty | Some m \<Rightarrow> m), target_fixture = tf\<rparr>
   in k \<notin> set (map fst (ms caller))
    \<and> ms' caller = ms caller @ [(k, Fixture k \<lparr>call = (\<lambda>_. c), pytest_bdd_step_context = c\<rparr>)]
    \<and> (\<exists>m. map_of (ms' caller) k = Some (Fixture k m) \<and> call m () = c
            \<and> pytest_bdd_step_context m = c)
    \<and> (cv = None \<longrightarrow> converters c = Map.empty)
    \<and> (\<forall>k'. k' \<noteq> k \<longrightarrow> map_of (ms' caller) k' = map_of (ms caller) k')
    \<and> (\<forall>m. m \<noteq> caller \<longrightarrow> ms' m = ms m)"
proof -
  let ?k = "find_unique_name (step_def_name t (identifying_name (get_parser sn)))
             (map fst (ms caller))"
  have fresh: "?k \<notin> set (map fst (ms caller))" by (rule find_unique_name_fresh)
  then have none: "map_of (ms caller) ?k = None"
    by (simp add: map_of_eq_None_iff)
  have r: "snd (step_decorator t sn cv tf caller f ms) =
      ms(caller := ms caller @ [(?k, Fixture ?k
        \<lparr>call = (\<lambda>_. \<lparr>type = t, step_func = f, parser = get_parser sn,
             converters = (case cv of None \<Rightarrow> Map.empty | Some m \<Rightarrow> m), target_fixture = tf\<rparr>),
         pytest_bdd_step_context = \<lparr>type = t, step_func = f, parser = get_parser sn,
             converters = (case cv of None \<Rightarrow> Map.empty | Some m \<Rightarrow> m), target_fixture = tf\<rparr>\<rparr>)])"
    by (simp add: step_decorator_result decorator_result)
  have other: "\<forall>k'. k' \<noteq> ?k \<longrightarrow>
      map_of (snd (step_decorator t sn cv tf caller f ms) caller) k' = map_of (ms caller) k'"
    by (simp add: r map_add_def split: option.splits)
  show ?thesis
    unfolding Let_def
  proof (intro conjI)
    show "?k \<notin> set (map fst (ms caller))" by (rule fresh)
  next
    show "\<forall>k'. k' \<noteq> ?k \<longrightarrow>
      map_of (snd (step_decorator t sn cv tf caller f ms) caller) k' = map_of (ms caller) k'"
      by (rule other)
  qed (simp_all add: r none map_add_def)
qed

text \<open>
  The step of \<^verbatim>\<open>tests/feature/test_description.py\<close>, registered from the test module: the
  entry is in the test module's namespace and the namespace of \<^verbatim>\<open>pytest_bdd.steps\<close> stays
  empty.
\<close>

theorem step_decorator_registers_context_witness:
  "snd (step_decorator GIVEN (Inl ''I have a bar'') None None ''test_description''
          raising_step no_modules) ''test_description''
     = [(''StepNamePrefix.step_def_given_I have a bar'',
         Fixture ''StepNamePrefix.step_def_given_I have a bar''
           \<lparr>call = (\<lambda>_. \<lparr>type = ''given'', step_func = raising_step,
                           parser = string_parser ''I have a bar'', converters = Map.empty,
                           target_fixture = None\<rparr>),
            pytest_bdd_step_context =
               \<lparr>type = ''given'', step_func = raising_step,
                 parser = string_parser ''I have a bar'', converters = Map.empty,
                 target_fixture = None\<rparr>\<rparr>)]
   \<and> snd (step_decorator GIVEN (Inl ''I have a bar'') None None ''test_description''
          raising_step no_modules) ''pytest_bdd.steps'' = []"
proof -
  let ?ms' = "snd (step_decorator GIVEN (Inl ''I have a bar'') None None ''test_description''
          raising_step no_modules)"
  note s = step_decorator_registers_context [of GIVEN "Inl ''I have a bar''" None None
      "''test_description''" raising_step no_modules, unfolded Let_def]
  have k: "find_unique_name (step_def_name GIVEN (identifying_name (get_parser (Inl ''I have a bar''))))
      (map fst (no_modules ''test_description''))
      = ''StepNamePrefix.step_def_given_I have a bar''"
    by (simp add: find_unique_name_def step_def_name_def StepNamePrefix_str_def
          get_parser_def string_parser_name GIVEN_def no_modules_def)
  have a: "?ms' ''test_description''
     = [(''StepNamePrefix.step_def_given_I have a bar'',
         Fixture ''StepNamePrefix.step_def_given_I have a bar''
           \<lparr>call = (\<lambda>_. \<lparr>type = ''given'', step_func = raising_step,
                           parser = string_parser ''I have a bar'', converters = Map.empty,
                           target_fixture = None\<rparr>),
            pytest_bdd_step_context =
               \<lparr>type = ''given'', step_func = raising_step,
                 parser = string_parser ''I have a bar'', converters = Map.empty,
                 target_fixture = None\<rparr>\<rparr>)]"
    by (subst s [THEN conjunct2, THEN conjunct1], subst k, subst k)
       (simp add: get_parser_def GIVEN_def no_modules_def)
  have "''pytest_bdd.steps'' \<noteq> ''test_description'' \<longrightarrow>
      ?ms' ''pytest_bdd.steps'' = no_modules ''pytest_bdd.steps''"
    by (rule s [THEN conjunct2, THEN conjunct2, THEN conjunct2, THEN conjunct2, THEN conjunct2,
          THEN spec])
  then have b: "?ms' ''pytest_bdd.steps'' = []" by (simp add: no_modules_def)
  from a b show ?thesis by (rule conjI)
qed

text \<open>
  Claim C10. \<open>get_step_fixture_name n t\<close> is the text \<^verbatim>\<open>StepNamePrefix.step_impl_\<close>, then
  \<open>t\<close>, an underscore and \<open>n\<close>: the member's textual form, not its declared value
  \<^verbatim>\<open>pytestbdd_stepimpl\<close>. The base name of a decoration is \<^verbatim>\<open>StepNamePrefix.step_def_\<close>, then
  the step type, an underscore and the parser's name; the identifier the decorator adds
  to the caller's namespace is \<open>find_unique_name\<close> of that base name, so it is the base
  name followed by a (possibly empty) suffix, and it never starts with the declared value
  \<^verbatim>\<open>pytestbdd_stepdef\<close>.
\<close>

theorem step_fixture_names:
  "get_step_fixture_name n t = ''StepNamePrefix.step_impl_'' @ t @ ''_'' @ n
   \<and> get_step_fixture_name n t \<noteq> StepNamePrefix_value step_impl @ ''_'' @ t @ ''_'' @ n
   \<and> step_def_name st pn = ''StepNamePrefix.step_def_'' @ st @ ''_'' @ pn
   \<and> map fst (snd (step_decorator st sn cv tf caller f ms) caller) =
       map fst (ms caller) @
         [find_unique_name (''StepNamePrefix.step_def_'' @ st @ ''_'' @ identifying_name (get_parser sn))
            (map fst (ms caller))]
   \<and> (\<exists>sfx. find_unique_name (step_def_name st pn) seen =
          ''StepNamePrefix.step_def_'' @ st @ ''_'' @ pn @ sfx)
   \<and> (\<forall>rest. find_unique_name (step_def_name st pn) seen \<noteq> StepNamePrefix_value step_def @ rest)"
proof (intro conjI)
  show "get_step_fixture_name n t = ''StepNamePrefix.step_impl_'' @ t @ ''_'' @ n"
    by (simp add: get_step_fixture_name_def StepNamePrefix_str_def)
  show "get_step_fixture_name n t \<noteq> StepNamePrefix_value step_impl @ ''_'' @ t @ ''_'' @ n"
    by (simp add: get_step_fixture_name_def StepNamePrefix_str_def)
  show b: "step_def_name st pn = ''StepNamePrefix.step_def_'' @ st @ ''_'' @ pn"
    by (simp add: step_def_name_def StepNamePrefix_str_def)
  have "step_def_name st (identifying_name (get_parser sn)) =
      ''StepNamePrefix.step_def_'' @ st @ ''_'' @ identifying_name (get_parser sn)"
    by (simp add: step_def_name_def StepNamePrefix_str_def)
  then show "map fst (snd (step_decorator st sn cv tf caller f ms) caller) =
       map fst (ms caller) @
         [find_unique_name (''StepNamePrefix.step_def_'' @ st @ ''_'' @ identifying_name (get_parser sn))
            (map fst (ms caller))]"
    by (simp add: step_decorator_result decorator_result)
  obtain sfx where e: "find_unique_name (step_def_name st pn) seen = step_def_name st pn @ sfx"
    using find_unique_name_extends by blast
  then show "\<exists>sfx. find_unique_name (step_def_name st pn) seen =
          ''StepNamePrefix.step_def_'' @ st @ ''_'' @ pn @ sfx"
    by (simp add: b)
  from e show "\<forall>rest. find_unique_name (step_def_name st pn) seen \<noteq> StepNamePrefix_value step_def @ rest"
    by (simp add: b)
qed

text \<open>The two names for the step \<^verbatim>\<open>I have a bar\<close> of type \<^verbatim>\<open>given\<close>.\<close>

theorem step_fixture_names_witness:
  "get_step_fixture_name ''I have a bar'' ''given'' = ''StepNamePrefix.step_impl_given_I have a bar''
   \<and> map fst (snd (step_decorator GIVEN (Inl ''I have a bar'') None None ''test_description''
        raising_step no_modules) ''test_description'')
      = [''StepNamePrefix.step_def_given_I have a bar'']"
proof -
  note s = step_fixture_names [of "''I have a bar''" "''given''" GIVEN "''I have a bar''"
      "Inl ''I have a bar''" None None "''test_description''" raising_step no_modules "[]"]
  note s1 = s [THEN conjunct1]
  note s4 = s [THEN conjunct2, THEN conjunct2, THEN conjunct2, THEN conjunct1]
  from s1 have a: "get_step_fixture_name ''I have a bar'' ''given'' =
      ''StepNamePrefix.step_impl_given_I have a bar''"
    by simp
  from s4 have b: "map fst (snd (step_decorator GIVEN (Inl ''I have a bar'') None None
        ''test_description'' raising_step no_modules) ''test_description'')
      = [''StepNamePrefix.step_def_given_I have a bar'']"
    by (simp add: find_unique_name_def get_parser_def string_parser_name GIVEN_def no_modules_def)
  from a b show ?thesis by (rule conjI)
qed

subsection \<open>The fixture request and \<^verbatim>\<open>inject_fixture\<close>\<close>

text \<open>
  The object that the call \<^verbatim>\<open>FixtureDef(fixturemanager=..., baseid=None, argname=arg,
  func=lambda: value, scope="function", params=None)\<close> builds, with the attributes the
  source sets. \<open>func\<close> is the function of no argument \<^verbatim>\<open>lambda: value\<close>; \<open>cached_result\<close> is
  absent or the triple (result, cache key, exception). \<open>ident\<close> is the identity of the
  object: the class defines no equality of its own, so \<^verbatim>\<open>list.remove(fd)\<close> finds \<^verbatim>\<open>fd\<close> by
  identity, and two objects built from the same name and value are different objects.
\<close>

record 'v FixtureDef =
  ident :: nat
  baseid :: "string option"
  argname :: string
  func :: "unit \<Rightarrow> 'v"
  scope :: string
  params :: "'v list option"
  cached_result :: "('v \<times> nat \<times> error option) option"

text \<open>
  The constructor belongs to the host. Whether it raises for the given name and value is
  a parameter (\<open>raises\<close>: the exception, if any); otherwise it returns the new object,
  whose identity \<open>oid\<close> is the next unused one.
\<close>

definition FixtureDef_init ::
  "error option \<Rightarrow> nat \<Rightarrow> string option \<Rightarrow> string \<Rightarrow> (unit \<Rightarrow> 'v) \<Rightarrow> string \<Rightarrow> 'v list option
   \<Rightarrow> error + 'v FixtureDef" where
  "FixtureDef_init raises oid baseid' argname' func' scope' params' =
     (case raises of
        Some e \<Rightarrow> Inl e
      | None \<Rightarrow> Inr \<lparr>ident = oid, baseid = baseid', argname = argname', func = func',
                      scope = scope', params = params', cached_result = None\<rparr>)"

text \<open>
  The variables that the inner function \<^verbatim>\<open>fin\<close> of \<^verbatim>\<open>inject_fixture\<close> captures: \<^verbatim>\<open>arg\<close>,
  \<^verbatim>\<open>fd\<close>, \<^verbatim>\<open>old_fd\<close> and \<^verbatim>\<open>add_fixturename\<close> (none of them is assigned again).
\<close>

record 'v fin_closure =
  fin_arg :: string
  fin_fd :: "'v FixtureDef"
  fin_old_fd :: "'v FixtureDef option"
  fin_add_fixturename :: bool

text \<open>
  The state of the host that \<^verbatim>\<open>inject_fixture\<close> reads and writes through \<^verbatim>\<open>request\<close>:
  \<^verbatim>\<open>request._fixturemanager._arg2fixturedefs\<close> (name to list of definitions),
  \<^verbatim>\<open>request._fixture_defs\<close> (name to the active definition; a value may be \<^verbatim>\<open>None\<close>),
  \<^verbatim>\<open>request._pyfuncitem._fixtureinfo.names_closure\<close>, the finalizers registered with
  \<^verbatim>\<open>request.addfinalizer\<close> in registration order, and the next unused object identity.
\<close>

record 'v FixtureRequest =
  arg2fixturedefs :: "string \<rightharpoonup> 'v FixtureDef list"
  fixture_defs :: "string \<rightharpoonup> 'v FixtureDef option"
  names_closure :: "string list"
  finalizers :: "'v fin_closure list"
  next_id :: nat

text \<open>
  \<^verbatim>\<open>arg in request.fixturenames\<close>. The host's property lists \<^verbatim>\<open>names_closure\<close> followed by
  the keys of \<^verbatim>\<open>_fixture_defs\<close> that are not in it.
\<close>

definition in_fixturenames :: "string \<Rightarrow> 'v FixtureRequest \<Rightarrow> bool" where
  "in_fixturenames arg request =
     (arg \<in> set (names_closure request) \<or> fixture_defs request arg \<noteq> None)"

text \<open>
  \<^verbatim>\<open>d.get(k)\<close> on a dictionary whose values may be \<^verbatim>\<open>None\<close>, and \<^verbatim>\<open>d.get(k, [])\<close>, the list
  that \<^verbatim>\<open>d.setdefault(k, [])\<close> returns.
\<close>

definition dict_get :: "('k \<rightharpoonup> 'a option) \<Rightarrow> 'k \<Rightarrow> 'a option" where
  "dict_get d k = (case d k of None \<Rightarrow> None | Some v \<Rightarrow> v)"

definition dict_get_list :: "('k \<rightharpoonup> 'a list) \<Rightarrow> 'k \<Rightarrow> 'a list" where
  "dict_get_list d k = (case d k of None \<Rightarrow> [] | Some l \<Rightarrow> l)"

text \<open>
  \<^verbatim>\<open>list.remove(x)\<close>: the list without its first element that is the same as \<^verbatim>\<open>x\<close>
  (predicate \<open>same\<close>), or \<open>None\<close> for the \<^verbatim>\<open>ValueError\<close> raised when there is no such
  element.
\<close>

fun list_remove :: "('a \<Rightarrow> bool) \<Rightarrow> 'a list \<Rightarrow> 'a list option" where
  "list_remove same [] = None"
| "list_remove same (x # xs) =
     (if same x then Some xs else map_option ((#) x) (list_remove same xs))"

definition addfinalizer :: "'v FixtureRequest \<Rightarrow> 'v fin_closure \<Rightarrow> 'v FixtureRequest" where
  "addfinalizer request c = request\<lparr>finalizers := finalizers request @ [c]\<rparr>"

text \<open>
  The finalizer \<^verbatim>\<open>fin\<close>. \<^verbatim>\<open>_arg2fixturedefs[arg]\<close> raises \<^verbatim>\<open>KeyError\<close> for a missing name and
  each \<^verbatim>\<open>remove\<close> raises \<^verbatim>\<open>ValueError\<close> for a missing element; the state at a raise is the
  one reached so far.
\<close>

definition fin :: "'v fin_closure \<Rightarrow> 'v FixtureRequest \<Rightarrow> (error + unit) \<times> 'v FixtureRequest" where
  "fin c request =
     (case arg2fixturedefs request (fin_arg c) of
        None \<Rightarrow> (Inl KeyError, request)
      | Some fds \<Rightarrow>
         (case list_remove (\<lambda>x. ident x = ident (fin_fd c)) fds of
            None \<Rightarrow> (Inl ValueError, request)
          | Some fds' \<Rightarrow>
             (let request1 = request\<lparr>arg2fixturedefs := (arg2fixturedefs request)(fin_arg c \<mapsto> fds')\<rparr>;
                  request2 = request1\<lparr>fixture_defs :=
                               (fixture_defs request1)(fin_arg c \<mapsto> fin_old_fd c)\<rparr>
              in if fin_add_fixturename c then
                   (case list_remove (\<lambda>x. x = fin_arg c) (names_closure request2) of
                      None \<Rightarrow> (Inl ValueError, request2)
                    | Some names \<Rightarrow> (Inr (), request2\<lparr>names_closure := names\<rparr>))
                 else (Inr (), request2))))"

text \<open>
  \<^verbatim>\<open>inject_fixture(request, arg, value)\<close>, statement by statement: build the definition and
  set its cached result, read \<^verbatim>\<open>old_fd\<close> and \<^verbatim>\<open>add_fixturename\<close>, register the finalizer,
  append the definition to \<^verbatim>\<open>_arg2fixturedefs[arg]\<close>, make it the active one, and append
  the name to \<^verbatim>\<open>names_closure\<close> when \<^verbatim>\<open>add_fixturename\<close> holds.
\<close>

definition inject_fixture ::
  "(string \<Rightarrow> 'v \<Rightarrow> error option) \<Rightarrow> 'v FixtureRequest \<Rightarrow> string \<Rightarrow> 'v
   \<Rightarrow> (error + unit) \<times> 'v FixtureRequest" where
  "inject_fixture raises request arg value =
     (case FixtureDef_init (raises arg value) (next_id request) None arg (\<lambda>_. value)
             ''function'' None of
        Inl e \<Rightarrow> (Inl e, request)
      | Inr fd0 \<Rightarrow>
         (let fd = fd0\<lparr>cached_result := Some (value, 0, None)\<rparr>;
              request0 = request\<lparr>next_id := Suc (next_id request)\<rparr>;
              old_fd = dict_get (fixture_defs request0) arg;
              add_fixturename = (\<not> in_fixturenames arg request0);
              request1 = addfinalizer request0
                 \<lparr>fin_arg = arg, fin_fd = fd, fin_old_fd = old_fd,
                  fin_add_fixturename = add_fixturename\<rparr>;
              request2 = request1\<lparr>arg2fixturedefs :=
                 (arg2fixturedefs request1)(arg \<mapsto> dict_get_list (arg2fixturedefs request1) arg @ [fd])\<rparr>;
              request3 = request2\<lparr>fixture_defs := (fixture_defs request2)(arg \<mapsto> Some fd)\<rparr>
          in (Inr (), if add_fixturename
                      then request3\<lparr>names_closure := names_closure request3 @ [arg]\<rparr>
                      else request3)))"

text \<open>
  Modelled from the spec: the teardown of the host runtime. The finalizers of an
  invocation run in reverse order of registration, and a finalizer that raises does not
  stop the ones after it; the exceptions are collected. \<open>run_finalizers\<close> runs a list of
  finalizers in the order given.
\<close>

fun run_finalizers ::
  "'v fin_closure list \<Rightarrow> 'v FixtureRequest \<Rightarrow> error list \<times> 'v FixtureRequest" where
  "run_finalizers [] request = ([], request)"
| "run_finalizers (c # cs) request =
     (case fin c request of
        (r, request') \<Rightarrow>
          (case run_finalizers cs request' of
             (errors, request'') \<Rightarrow>
               ((case r of Inl e \<Rightarrow> [e] | Inr _ \<Rightarrow> []) @ errors, request'')))"

definition teardown :: "'v FixtureRequest \<Rightarrow> error list \<times> 'v FixtureRequest" where
  "teardown request =
     run_finalizers (rev (finalizers request)) (request\<lparr>finalizers := []\<rparr>)"

text \<open>
  Modelled from the spec: resolution of a name by the host (\<^verbatim>\<open>request.getfixturevalue\<close>),
  for a name with an entry in \<^verbatim>\<open>_fixture_defs\<close>: the host returns the cached result of
  the active definition and does not call \<open>func\<close>. For a name with no entry the host goes
  on to its own lookup, which is outside this module; the model answers with a lookup
  error.
\<close>

definition getfixturevalue :: "'v FixtureRequest \<Rightarrow> string \<Rightarrow> error + 'v" where
  "getfixturevalue request argname' =
     (case fixture_defs request argname' of
        None \<Rightarrow> Inl FixtureLookupError
      | Some None \<Rightarrow> Inl AttributeError
      | Some (Some fd) \<Rightarrow>
         (case cached_result fd of
            None \<Rightarrow> Inl AssertionError
          | Some (v, key, None) \<Rightarrow> Inr v
          | Some (v, key, Some e) \<Rightarrow> Inl e))"

subsection \<open>Properties of the injection\<close>

text \<open>
  What a request yields for every name: \<^verbatim>\<open>names_closure\<close>, \<^verbatim>\<open>_fixture_defs.get(name)\<close> and
  \<^verbatim>\<open>_arg2fixturedefs.get(name, [])\<close>.
\<close>

definition bindings ::
  "'v FixtureRequest \<Rightarrow> string list \<times> (string \<Rightarrow> 'v FixtureDef option) \<times> (string \<Rightarrow> 'v FixtureDef list)" where
  "bindings request =
     (names_closure request, dict_get (fixture_defs request), dict_get_list (arg2fixturedefs request))"

text \<open>
  Object identities are unique: every definition in the lists of the request was built
  before the next one will be.
\<close>

definition fresh_ids :: "'v FixtureRequest \<Rightarrow> bool" where
  "fresh_ids request =
     (\<forall>a fds. arg2fixturedefs request a = Some fds \<longrightarrow> (\<forall>fd\<in>set fds. ident fd < next_id request))"

text \<open>A request with no definition, and a constructor that never raises.\<close>

definition empty_request :: "'v FixtureRequest" where
  "empty_request = \<lparr>arg2fixturedefs = Map.empty, fixture_defs = Map.empty, names_closure = [],
                     finalizers = [], next_id = 0\<rparr>"

definition never_raises :: "string \<Rightarrow> 'v \<Rightarrow> error option" where
  "never_raises a v = None"


text \<open>
  The definition object that an injection builds and the closure it registers, in terms
  of the request before the injection.
\<close>

definition injected_fd :: "'v FixtureRequest \<Rightarrow> string \<Rightarrow> 'v \<Rightarrow> 'v FixtureDef" where
  "injected_fd request arg value =
     \<lparr>ident = next_id request, baseid = None, argname = arg, func = (\<lambda>_. value),
      scope = ''function'', params = None, cached_result = Some (value, 0, None)\<rparr>"

definition registered_fin :: "'v FixtureRequest \<Rightarrow> string \<Rightarrow> 'v \<Rightarrow> 'v fin_closure" where
  "registered_fin request arg value =
     \<lparr>fin_arg = arg, fin_fd = injected_fd request arg value,
      fin_old_fd = dict_get (fixture_defs request) arg,
      fin_add_fixturename = (\<not> in_fixturenames arg request)\<rparr>"

lemma inject_fixture_fails:
  "raises arg value = Some e \<Longrightarrow> inject_fixture raises request arg value = (Inl e, request)"
  by (simp add: inject_fixture_def FixtureDef_init_def)

lemma inject_fixture_state:
  assumes "raises arg value = None"
  shows "inject_fixture raises request arg value =
    (Inr (),
     request\<lparr>arg2fixturedefs := (arg2fixturedefs request)
                 (arg \<mapsto> dict_get_list (arg2fixturedefs request) arg @ [injected_fd request arg value]),
              fixture_defs := (fixture_defs request)(arg \<mapsto> Some (injected_fd request arg value)),
              names_closure := (if in_fixturenames arg request then names_closure request
                                else names_closure request @ [arg]),
              finalizers := finalizers request @ [registered_fin request arg value],
              next_id := Suc (next_id request)\<rparr>)"
  using assms
  by (simp add: inject_fixture_def FixtureDef_init_def Let_def addfinalizer_def
      injected_fd_def registered_fin_def in_fixturenames_def)

lemma list_remove_snoc:
  "\<forall>x\<in>set xs. \<not> same x \<Longrightarrow> same y \<Longrightarrow> list_remove same (xs @ [y]) = Some xs"
  by (induction xs) auto

lemma fresh_ids_list:
  "fresh_ids request \<Longrightarrow>
     \<forall>fd\<in>set (dict_get_list (arg2fixturedefs request) arg). ident fd < next_id request"
proof (cases "arg2fixturedefs request arg")
  case None
  then show ?thesis by (simp add: dict_get_list_def)
next
  case (Some fds)
  assume "fresh_ids request"
  with Some have "\<forall>fd\<in>set fds. ident fd < next_id request"
    unfolding fresh_ids_def by blast
  with Some show ?thesis by (simp add: dict_get_list_def)
qed

lemma fin_after_inject:
  assumes fresh: "fresh_ids request" and ok: "raises arg value = None"
  shows "fin (registered_fin request arg value) (snd (inject_fixture raises request arg value)) =
    (Inr (),
     request\<lparr>arg2fixturedefs := (arg2fixturedefs request)
                 (arg \<mapsto> dict_get_list (arg2fixturedefs request) arg),
              fixture_defs := (fixture_defs request)(arg \<mapsto> dict_get (fixture_defs request) arg),
              finalizers := finalizers request @ [registered_fin request arg value],
              next_id := Suc (next_id request)\<rparr>)"
proof -
  let ?fd = "injected_fd request arg value"
  let ?old = "dict_get_list (arg2fixturedefs request) arg"
  have "\<forall>x\<in>set ?old. \<not> ident x = ident ?fd"
    using fresh_ids_list [OF fresh, of arg] by (auto simp: injected_fd_def)
  then have rm: "list_remove (\<lambda>x. ident x = ident ?fd) (?old @ [?fd]) = Some ?old"
    by (rule list_remove_snoc) simp
  have nm: "\<not> in_fixturenames arg request \<Longrightarrow>
      list_remove (\<lambda>x. x = arg) (names_closure request @ [arg]) = Some (names_closure request)"
    by (rule list_remove_snoc) (auto simp: in_fixturenames_def)
  note st = inject_fixture_state [of raises arg "value" request, OF ok]
  show ?thesis
    by (cases "in_fixturenames arg request")
       (simp_all add: st fin_def registered_fin_def rm nm Let_def)
qed

lemma fin_finalizers_update:
  "fin c (request\<lparr>finalizers := fs\<rparr>) =
     (fst (fin c request), (snd (fin c request))\<lparr>finalizers := fs\<rparr>)"
  by (simp add: fin_def Let_def split: option.splits)

lemma bindings_finalizers_update: "bindings (request\<lparr>finalizers := fs\<rparr>) = bindings request"
  by (simp add: bindings_def)

text \<open>
  Claim C1, as amended. For every injection that returns, on a request whose object
  identities are unique: the injection registers one finalizer and adds the name to
  \<^verbatim>\<open>names_closure\<close> exactly when the name was not in \<^verbatim>\<open>request.fixturenames\<close>; running that
  finalizer raises nothing, restores \<^verbatim>\<open>names_closure\<close> exactly, removes the installed
  entry, and leaves \<^verbatim>\<open>_fixture_defs\<close> and \<^verbatim>\<open>_arg2fixturedefs\<close> as they were except at the
  injected name, which is bound to its prior entry, or to \<^verbatim>\<open>None\<close> and to the empty list
  when it had no entry. So \<^verbatim>\<open>_fixture_defs.get\<close> and \<^verbatim>\<open>_arg2fixturedefs.get(., [])\<close> answer
  for every name as before the injection, also after the teardown of an invocation whose
  only finalizer is this one.
\<close>

theorem inject_fixture_round_trip:
  assumes fresh: "fresh_ids request" and ok: "raises arg v = None"
  shows "let request1 = snd (inject_fixture raises request arg v);
             c = registered_fin request arg v;
             request' = snd (fin c request1)
         in fst (inject_fixture raises request arg v) = Inr ()
          \<and> finalizers request1 = finalizers request @ [c]
          \<and> names_closure request1 =
              (if in_fixturenames arg request then names_closure request
               else names_closure request @ [arg])
          \<and> fst (fin c request1) = Inr ()
          \<and> names_closure request' = names_closure request
          \<and> fixture_defs request' =
              (fixture_defs request)(arg \<mapsto> dict_get (fixture_defs request) arg)
          \<and> arg2fixturedefs request' =
              (arg2fixturedefs request)(arg \<mapsto> dict_get_list (arg2fixturedefs request) arg)
          \<and> injected_fd request arg v \<notin> set (dict_get_list (arg2fixturedefs request') arg)
          \<and> bindings request' = bindings request
          \<and> (finalizers request = [] \<longrightarrow>
                fst (teardown request1) = [] \<and> bindings (snd (teardown request1)) = bindings request)"
proof -
  note st = inject_fixture_state [of raises arg v request, OF ok]
  note fi = fin_after_inject [of request raises arg v, OF fresh ok]
  let ?c = "registered_fin request arg v"
  let ?r1 = "snd (inject_fixture raises request arg v)"
  let ?r' = "snd (fin ?c ?r1)"
  have b: "bindings ?r' = bindings request"
    by (auto simp: fi bindings_def dict_get_def dict_get_list_def fun_eq_iff)
  have notin: "injected_fd request arg v \<notin> set (dict_get_list (arg2fixturedefs ?r') arg)"
    using fresh_ids_list [OF fresh, of arg]
    by (auto simp: fi dict_get_list_def injected_fd_def)
  have td: "finalizers request = [] \<longrightarrow>
      fst (teardown ?r1) = [] \<and> bindings (snd (teardown ?r1)) = bindings request"
  proof
    assume e: "finalizers request = []"
    have f: "finalizers ?r1 = [?c]" by (simp add: st e)
    have "teardown ?r1 = ([], ?r'\<lparr>finalizers := []\<rparr>)"
      by (simp add: teardown_def f fin_finalizers_update fi)
    with b show "fst (teardown ?r1) = [] \<and> bindings (snd (teardown ?r1)) = bindings request"
      by (simp add: bindings_finalizers_update)
  qed
  show ?thesis
    unfolding Let_def
  proof (intro conjI)
    show "bindings ?r' = bindings request" by (rule b)
    show "injected_fd request arg v \<notin> set (dict_get_list (arg2fixturedefs ?r') arg)"
      by (rule notin)
    show "finalizers request = [] \<longrightarrow>
      fst (teardown ?r1) = [] \<and> bindings (snd (teardown ?r1)) = bindings request"
      by (rule td)
    show "fst (inject_fixture raises request arg v) = Inr ()" by (simp add: st)
    show "finalizers ?r1 = finalizers request @ [?c]" by (simp add: st)
    show "names_closure ?r1 =
              (if in_fixturenames arg request then names_closure request
               else names_closure request @ [arg])" by (simp add: st)
    show "fst (fin ?c ?r1) = Inr ()" by (simp add: fi)
    show "names_closure ?r' = names_closure request" by (simp add: fi)
    show "fixture_defs ?r' =
              (fixture_defs request)(arg \<mapsto> dict_get (fixture_defs request) arg)"
      by (simp add: fi)
    show "arg2fixturedefs ?r' =
              (arg2fixturedefs request)(arg \<mapsto> dict_get_list (arg2fixturedefs request) arg)"
      by (simp add: fi)
  qed
qed

text \<open>The round trip on the empty request, for the name and value of the Given test.\<close>

lemma fresh_ids_empty: "fresh_ids empty_request"
  by (simp add: fresh_ids_def empty_request_def)

theorem inject_fixture_round_trip_witness:
  "fresh_ids (empty_request :: string FixtureRequest)
   \<and> never_raises ''foo'' ''injected foo'' = None
   \<and> names_closure (snd (inject_fixture never_raises (empty_request :: string FixtureRequest)
         ''foo'' ''injected foo'')) = [''foo'']
   \<and> fst (teardown (snd (inject_fixture never_raises (empty_request :: string FixtureRequest)
         ''foo'' ''injected foo''))) = []
   \<and> bindings (snd (teardown (snd (inject_fixture never_raises
         (empty_request :: string FixtureRequest) ''foo'' ''injected foo''))))
       = bindings (empty_request :: string FixtureRequest)"
proof -
  let ?e = "empty_request :: string FixtureRequest"
  have h1: "fresh_ids ?e" by (rule fresh_ids_empty)
  have h2: "never_raises ''foo'' ''injected foo'' = None" by (simp add: never_raises_def)
  note t = inject_fixture_round_trip [of ?e never_raises "''foo''" "''injected foo''",
      OF h1 h2, unfolded Let_def]
  have n: "names_closure (snd (inject_fixture never_raises ?e ''foo'' ''injected foo'')) = [''foo'']"
    using t [THEN conjunct2, THEN conjunct2, THEN conjunct1]
    by (simp add: in_fixturenames_def empty_request_def)
  have f: "finalizers ?e = []" by (simp add: empty_request_def)
  note last = t [THEN conjunct2, THEN conjunct2, THEN conjunct2, THEN conjunct2, THEN conjunct2,
      THEN conjunct2, THEN conjunct2, THEN conjunct2, THEN conjunct2, THEN mp, OF f]
  from h1 h2 n last show ?thesis by (intro conjI) simp_all
qed

text \<open>
  Claim C1 as stated fails: after the injection of a name with no prior entry and the
  teardown, \<^verbatim>\<open>_fixture_defs\<close> binds the name to \<^verbatim>\<open>None\<close> and \<^verbatim>\<open>_arg2fixturedefs\<close> binds it to
  the empty list, where neither dictionary had the key before; the name is then in
  \<^verbatim>\<open>request.fixturenames\<close>, where it was not before.
\<close>

theorem inject_fixture_round_trip_counterexample:
  "fixture_defs (snd (teardown (snd (inject_fixture never_raises
      (empty_request :: string FixtureRequest) ''foo'' ''injected foo'')))) ''foo'' = Some None
   \<and> fixture_defs (empty_request :: string FixtureRequest) ''foo'' = None
   \<and> arg2fixturedefs (snd (teardown (snd (inject_fixture never_raises
      (empty_request :: string FixtureRequest) ''foo'' ''injected foo'')))) ''foo'' = Some []
   \<and> arg2fixturedefs (empty_request :: string FixtureRequest) ''foo'' = None
   \<and> fixture_defs (snd (teardown (snd (inject_fixture never_raises
      (empty_request :: string FixtureRequest) ''foo'' ''injected foo''))))
       \<noteq> fixture_defs (empty_request :: string FixtureRequest)
   \<and> arg2fixturedefs (snd (teardown (snd (inject_fixture never_raises
      (empty_request :: string FixtureRequest) ''foo'' ''injected foo''))))
       \<noteq> arg2fixturedefs (empty_request :: string FixtureRequest)
   \<and> in_fixturenames ''foo'' (snd (teardown (snd (inject_fixture never_raises
      (empty_request :: string FixtureRequest) ''foo'' ''injected foo''))))
   \<and> \<not> in_fixturenames ''foo'' (empty_request :: string FixtureRequest)"
proof -
  let ?e = "empty_request :: string FixtureRequest"
  let ?after = "snd (teardown (snd (inject_fixture never_raises ?e ''foo'' ''injected foo'')))"
  have a: "fixture_defs ?after ''foo'' = Some None"
    by (simp add: teardown_def inject_fixture_def FixtureDef_init_def never_raises_def
        empty_request_def Let_def addfinalizer_def in_fixturenames_def dict_get_def
        dict_get_list_def fin_def)
  have b: "fixture_defs ?e ''foo'' = None" by (simp add: empty_request_def)
  have c: "arg2fixturedefs ?after ''foo'' = Some []"
    by (simp add: teardown_def inject_fixture_def FixtureDef_init_def never_raises_def
        empty_request_def Let_def addfinalizer_def in_fixturenames_def dict_get_def
        dict_get_list_def fin_def)
  have d: "arg2fixturedefs ?e ''foo'' = None" by (simp add: empty_request_def)
  from a b have e: "fixture_defs ?after \<noteq> fixture_defs ?e" by (metis option.distinct(1))
  from c d have f: "arg2fixturedefs ?after \<noteq> arg2fixturedefs ?e" by (metis option.distinct(1))
  from a have g: "in_fixturenames ''foo'' ?after" by (simp add: in_fixturenames_def)
  have h: "\<not> in_fixturenames ''foo'' ?e" by (simp add: in_fixturenames_def empty_request_def)
  from a b c d e f g h show ?thesis by (intro conjI)
qed

text \<open>
  Claim C7. After an injection of \<open>v\<close> under a name, the name resolves to exactly \<open>v\<close>: the
  active definition of the name is the injected one, its cached result is \<open>v\<close> (with cache
  key 0 and no exception), so resolution reads \<open>v\<close> without calling \<open>func\<close>, and \<open>func\<close>
  would return the same \<open>v\<close>.
\<close>

theorem inject_fixture_installs_value:
  assumes ok: "raises arg v = None"
  shows "getfixturevalue (snd (inject_fixture raises request arg v)) arg = Inr v
   \<and> fixture_defs (snd (inject_fixture raises request arg v)) arg
        = Some (Some (injected_fd request arg v))
   \<and> cached_result (injected_fd request arg v) = Some (v, 0, None)
   \<and> func (injected_fd request arg v) () = v
   \<and> argname (injected_fd request arg v) = arg
   \<and> dict_get_list (arg2fixturedefs (snd (inject_fixture raises request arg v))) arg
        = dict_get_list (arg2fixturedefs request) arg @ [injected_fd request arg v]"
proof -
  note st = inject_fixture_state [of raises arg v request, OF ok]
  show ?thesis
    by (simp add: st getfixturevalue_def dict_get_list_def injected_fd_def)
qed

text \<open>
  The Given step of \<^verbatim>\<open>test_given_injection\<close>: its return value \<^verbatim>\<open>"injected foo"\<close> injected as
  \<^verbatim>\<open>foo\<close> is what a later request for \<^verbatim>\<open>foo\<close> observes.
\<close>

theorem inject_fixture_installs_value_witness:
  "never_raises ''foo'' ''injected foo'' = None
   \<and> getfixturevalue (snd (inject_fixture never_raises (empty_request :: string FixtureRequest)
        ''foo'' ''injected foo'')) ''foo'' = Inr ''injected foo''"
proof -
  have h: "never_raises ''foo'' ''injected foo'' = None" by (simp add: never_raises_def)
  note t = inject_fixture_installs_value [of never_raises "''foo''" "''injected foo''"
      "empty_request :: string FixtureRequest", OF h]
  from h t [THEN conjunct1] show ?thesis by (rule conjI)
qed

text \<open>A constructor that rejects the name \<^verbatim>\<open>request\<close>.\<close>

definition rejects_reserved :: "string \<Rightarrow> 'v \<Rightarrow> error option" where
  "rejects_reserved a v = (if a = ''request'' then Some (Raised ''reserved name'') else None)"

text \<open>
  Claim C9. An injection that fails leaves the request exactly as it was: the only
  failure is a raise of the constructor, and the constructor runs before the first
  mutation (the registration of the finalizer) and before the installation.
\<close>

theorem inject_fixture_failure_leaves_request:
  assumes "fst (inject_fixture raises request arg v) = Inl e"
  shows "snd (inject_fixture raises request arg v) = request \<and> raises arg v = Some e"
proof (cases "raises arg v")
  case None
  note st = inject_fixture_state [of raises arg v request, OF None]
  with assms show ?thesis by simp
next
  case (Some e')
  note f = inject_fixture_fails [of raises arg v e' request, OF Some]
  with assms Some show ?thesis by simp
qed

text \<open>An injection under the rejected name fails and changes nothing.\<close>

theorem inject_fixture_failure_leaves_request_witness:
  "fst (inject_fixture rejects_reserved (empty_request :: string FixtureRequest)
         ''request'' ''some value'') = Inl (Raised ''reserved name'')
   \<and> snd (inject_fixture rejects_reserved (empty_request :: string FixtureRequest)
         ''request'' ''some value'') = empty_request
   \<and> rejects_reserved ''request'' ''some value'' = Some (Raised ''reserved name'')"
proof -
  have h: "fst (inject_fixture rejects_reserved (empty_request :: string FixtureRequest)
         ''request'' ''some value'') = Inl (Raised ''reserved name'')"
    by (simp add: inject_fixture_def FixtureDef_init_def rejects_reserved_def)
  note t = inject_fixture_failure_leaves_request [OF h]
  from h t show ?thesis by simp
qed

subsection \<open>Repeated injection of one name\<close>

text \<open>
  A test body that calls \<^verbatim>\<open>inject_fixture(request, arg, v)\<close> for each value of a list, one
  call after the other, on the same request.
\<close>

fun inject_all ::
  "(string \<Rightarrow> 'v \<Rightarrow> error option) \<Rightarrow> 'v FixtureRequest \<Rightarrow> string \<Rightarrow> 'v list \<Rightarrow> 'v FixtureRequest" where
  "inject_all raises request arg [] = request"
| "inject_all raises request arg (v # vs) =
     inject_all raises (snd (inject_fixture raises request arg v)) arg vs"

lemma inject_all_snoc:
  "inject_all raises request arg (vs @ [v]) =
     snd (inject_fixture raises (inject_all raises request arg vs) arg v)"
  by (induction vs arbitrary: request) simp_all

lemma fresh_ids_inject:
  assumes "fresh_ids request"
  shows "fresh_ids (snd (inject_fixture raises request arg v))"
proof (cases "raises arg v")
  case None
  note st = inject_fixture_state [of raises arg v request, OF None]
  have old: "\<forall>fd\<in>set (dict_get_list (arg2fixturedefs request) arg). ident fd < next_id request"
    using assms by (rule fresh_ids_list)
  show ?thesis
    unfolding fresh_ids_def
  proof (intro allI impI ballI)
    fix a fds fd
    assume m: "arg2fixturedefs (snd (inject_fixture raises request arg v)) a = Some fds"
      and i: "fd \<in> set fds"
    show "ident fd < next_id (snd (inject_fixture raises request arg v))"
    proof (cases "a = arg")
      case True
      with m i old show ?thesis by (auto simp: st injected_fd_def less_Suc_eq)
    next
      case False
      with m have "arg2fixturedefs request a = Some fds" by (simp add: st)
      with assms i have "ident fd < next_id request" unfolding fresh_ids_def by blast
      then show ?thesis by (simp add: st)
    qed
  qed
next
  case (Some e)
  with assms show ?thesis by (simp add: inject_fixture_fails)
qed

lemma fresh_ids_inject_all:
  "fresh_ids request \<Longrightarrow> fresh_ids (inject_all raises request arg vs)"
  by (induction vs arbitrary: request) (simp_all add: fresh_ids_inject)

text \<open>
  A finalizer acts on the bindings only: on two requests with the same bindings it
  succeeds on both or fails on both, and leaves the same bindings.
\<close>

lemma fin_bindings_cong:
  assumes "bindings s = bindings t"
  shows "bindings (snd (fin c s)) = bindings (snd (fin c t))
       \<and> (fst (fin c s) = Inr ()) = (fst (fin c t) = Inr ())"
proof -
  from assms have n: "names_closure s = names_closure t"
    and d: "dict_get (fixture_defs s) = dict_get (fixture_defs t)"
    and a: "dict_get_list (arg2fixturedefs s) = dict_get_list (arg2fixturedefs t)"
    by (simp_all add: bindings_def)
  from a have a': "dict_get_list (arg2fixturedefs s) (fin_arg c) = dict_get_list (arg2fixturedefs t) (fin_arg c)"
    by simp
  have upd_a: "\<And>l. dict_get_list ((arg2fixturedefs s)(fin_arg c \<mapsto> l)) =
                    dict_get_list ((arg2fixturedefs t)(fin_arg c \<mapsto> l))"
    using a by (auto simp: fun_eq_iff dict_get_list_def)
  have upd_d: "\<And>x. dict_get ((fixture_defs s)(fin_arg c \<mapsto> x)) =
                    dict_get ((fixture_defs t)(fin_arg c \<mapsto> x))"
    using d by (auto simp: fun_eq_iff dict_get_def)
  show ?thesis
  proof (cases "arg2fixturedefs s (fin_arg c)")
    case sNone: None
    show ?thesis
    proof (cases "arg2fixturedefs t (fin_arg c)")
      case None
      with sNone assms show ?thesis by (simp add: fin_def)
    next
      case (Some l)
      with sNone a' have "l = []" by (simp add: dict_get_list_def)
      with sNone Some assms show ?thesis by (simp add: fin_def)
    qed
  next
    case sSome: (Some l)
    show ?thesis
    proof (cases "arg2fixturedefs t (fin_arg c)")
      case None
      with sSome a' have "l = []" by (simp add: dict_get_list_def)
      with sSome None assms show ?thesis by (simp add: fin_def)
    next
      case (Some l')
      with sSome a' have "l' = l" by (simp add: dict_get_list_def)
      with sSome Some assms n upd_a upd_d show ?thesis
        by (simp add: fin_def Let_def bindings_def split: option.splits)
    qed
  qed
qed

lemma run_finalizers_bindings_cong:
  "bindings s = bindings t \<Longrightarrow>
     bindings (snd (run_finalizers cs s)) = bindings (snd (run_finalizers cs t))
     \<and> (fst (run_finalizers cs s) = []) = (fst (run_finalizers cs t) = [])"
proof (induction cs arbitrary: s t)
  case Nil
  then show ?case by simp
next
  case (Cons c cs)
  from fin_bindings_cong [OF Cons.prems, of c]
  have b: "bindings (snd (fin c s)) = bindings (snd (fin c t))"
    and r: "(fst (fin c s) = Inr ()) = (fst (fin c t) = Inr ())" by simp_all
  note ih = Cons.IH [OF b]
  from r have r': "(case fst (fin c s) of Inl e \<Rightarrow> [e] | Inr _ \<Rightarrow> []) = [] \<longleftrightarrow>
                   (case fst (fin c t) of Inl e \<Rightarrow> [e] | Inr _ \<Rightarrow> []) = []"
    by (auto split: sum.splits)
  from ih r' show ?case
    by (simp add: split_beta)
qed

lemma fin_after_inject_bindings:
  assumes fresh: "fresh_ids request" and ok: "raises arg v = None"
  shows "bindings (snd (fin (registered_fin request arg v)
            (snd (inject_fixture raises request arg v)))) = bindings request"
proof -
  note fi = fin_after_inject [of request raises arg v, OF fresh ok]
  show ?thesis
    by (auto simp: fi bindings_def dict_get_def dict_get_list_def fun_eq_iff)
qed

lemma run_finalizers_stack:
  assumes fresh: "fresh_ids request"
  shows "\<forall>v\<in>set vs. raises arg v = None \<Longrightarrow> j \<le> length vs \<Longrightarrow>
    fst (run_finalizers (take j (rev (finalizers (inject_all raises request arg vs))))
           (inject_all raises request arg vs)) = []
    \<and> bindings (snd (run_finalizers (take j (rev (finalizers (inject_all raises request arg vs))))
           (inject_all raises request arg vs)))
        = bindings (inject_all raises request arg (take (length vs - j) vs))"
proof (induction vs arbitrary: j rule: rev_induct)
  case Nil
  then show ?case by simp
next
  case (snoc v ws)
  let ?u = "inject_all raises request arg ws"
  let ?c = "registered_fin ?u arg v"
  let ?sk = "snd (inject_fixture raises ?u arg v)"
  from snoc.prems have okv: "raises arg v = None" and okws: "\<forall>v\<in>set ws. raises arg v = None"
    by simp_all
  have fu: "fresh_ids ?u" using fresh by (rule fresh_ids_inject_all)
  note st = inject_fixture_state [of raises arg v ?u, OF okv]
  have fins: "finalizers ?sk = finalizers ?u @ [?c]" by (simp add: st)
  show ?case
  proof (cases j)
    case 0
    then show ?thesis by simp
  next
    case (Suc j')
    with snoc.prems have j': "j' \<le> length ws" by simp
    let ?cs = "take j' (rev (finalizers ?u))"
    note fi = fin_after_inject [of ?u raises arg v, OF fu okv]
    have r: "fst (fin ?c ?sk) = Inr ()" by (simp add: fi)
    have b: "bindings (snd (fin ?c ?sk)) = bindings ?u"
      using fu okv by (rule fin_after_inject_bindings)
    note cong = run_finalizers_bindings_cong [OF b, of ?cs]
    note ih = snoc.IH [OF okws j']
    have run: "run_finalizers (take j (rev (finalizers ?sk))) ?sk =
        ((case fst (fin ?c ?sk) of Inl e \<Rightarrow> [e] | Inr _ \<Rightarrow> []) @
            fst (run_finalizers ?cs (snd (fin ?c ?sk))),
         snd (run_finalizers ?cs (snd (fin ?c ?sk))))"
      by (simp add: fins Suc split_beta)
    have tk: "take (length (ws @ [v]) - j) (ws @ [v]) = take (length ws - j') ws"
      using Suc by simp
    from ih cong have e: "fst (run_finalizers ?cs (snd (fin ?c ?sk))) = []"
      and bb: "bindings (snd (run_finalizers ?cs (snd (fin ?c ?sk)))) =
               bindings (inject_all raises request arg (take (length ws - j') ws))"
      by simp_all
    show ?thesis
      by (simp only: inject_all_snoc run tk r e bb sum.case append_Nil fst_conv snd_conv simp_thms)
  qed
qed

text \<open>
  The two dictionaries and the list of names themselves, for restoration that is exact
  and not only up to \<^verbatim>\<open>get\<close>.
\<close>

definition dictionaries ::
  "'v FixtureRequest \<Rightarrow> (string \<rightharpoonup> 'v FixtureDef list) \<times> (string \<rightharpoonup> 'v FixtureDef option) \<times> string list" where
  "dictionaries request = (arg2fixturedefs request, fixture_defs request, names_closure request)"

lemma fin_dictionaries_cong:
  assumes "dictionaries s = dictionaries t"
  shows "dictionaries (snd (fin c s)) = dictionaries (snd (fin c t)) \<and> fst (fin c s) = fst (fin c t)"
  using assms
  by (simp add: dictionaries_def fin_def Let_def split: option.splits)

lemma run_finalizers_dictionaries_cong:
  "dictionaries s = dictionaries t \<Longrightarrow>
     dictionaries (snd (run_finalizers cs s)) = dictionaries (snd (run_finalizers cs t))
     \<and> fst (run_finalizers cs s) = fst (run_finalizers cs t)"
proof (induction cs arbitrary: s t)
  case Nil
  then show ?case by simp
next
  case (Cons c cs)
  from fin_dictionaries_cong [OF Cons.prems, of c]
  have b: "dictionaries (snd (fin c s)) = dictionaries (snd (fin c t))"
    and r: "fst (fin c s) = fst (fin c t)" by simp_all
  from Cons.IH [OF b] r show ?case by (simp add: split_beta)
qed

text \<open>
  When the name already has an entry in both dictionaries, the finalizer of an injection
  gives back the dictionaries and the list of names exactly.
\<close>

lemma fin_after_inject_dictionaries:
  assumes fresh: "fresh_ids request" and ok: "raises arg v = None"
    and a: "arg2fixturedefs request arg \<noteq> None" and d: "fixture_defs request arg \<noteq> None"
  shows "dictionaries (snd (fin (registered_fin request arg v)
            (snd (inject_fixture raises request arg v)))) = dictionaries request"
proof -
  note fi = fin_after_inject [of request raises arg v, OF fresh ok]
  from a have a': "(arg2fixturedefs request)(arg \<mapsto> dict_get_list (arg2fixturedefs request) arg)
      = arg2fixturedefs request"
    by (auto simp: dict_get_list_def fun_eq_iff)
  from d have d': "(fixture_defs request)(arg \<mapsto> dict_get (fixture_defs request) arg)
      = fixture_defs request"
    by (auto simp: dict_get_def fun_eq_iff)
  show ?thesis by (simp add: fi dictionaries_def a' d')
qed

lemma inject_all_bound:
  "\<forall>v\<in>set vs. raises arg v = None \<Longrightarrow> vs \<noteq> [] \<Longrightarrow>
     arg2fixturedefs (inject_all raises request arg vs) arg \<noteq> None
     \<and> fixture_defs (inject_all raises request arg vs) arg \<noteq> None"
proof (induction vs rule: rev_induct)
  case Nil
  then show ?case by simp
next
  case (snoc v ws)
  then have ok: "raises arg v = None" by simp
  note st = inject_fixture_state [of raises arg v "inject_all raises request arg ws", OF ok]
  show ?case by (simp add: inject_all_snoc st)
qed

lemma run_finalizers_stack_exact:
  assumes fresh: "fresh_ids request"
  shows "\<forall>v\<in>set vs. raises arg v = None \<Longrightarrow> j < length vs \<Longrightarrow>
    dictionaries (snd (run_finalizers (take j (rev (finalizers (inject_all raises request arg vs))))
           (inject_all raises request arg vs)))
        = dictionaries (inject_all raises request arg (take (length vs - j) vs))"
proof (induction vs arbitrary: j rule: rev_induct)
  case Nil
  then show ?case by simp
next
  case (snoc v ws)
  let ?u = "inject_all raises request arg ws"
  let ?c = "registered_fin ?u arg v"
  let ?sk = "snd (inject_fixture raises ?u arg v)"
  from snoc.prems have okv: "raises arg v = None" and okws: "\<forall>v\<in>set ws. raises arg v = None"
    by simp_all
  have fu: "fresh_ids ?u" using fresh by (rule fresh_ids_inject_all)
  note st = inject_fixture_state [of raises arg v ?u, OF okv]
  have fins: "finalizers ?sk = finalizers ?u @ [?c]" by (simp add: st)
  show ?case
  proof (cases j)
    case 0
    then show ?thesis by simp
  next
    case (Suc j')
    with snoc.prems have j': "j' < length ws" by simp
    then have ne: "ws \<noteq> []" by auto
    let ?cs = "take j' (rev (finalizers ?u))"
    note bound = inject_all_bound [of ws raises arg request, OF okws ne]
    have b: "dictionaries (snd (fin ?c ?sk)) = dictionaries ?u"
      using fu okv bound by (intro fin_after_inject_dictionaries) simp_all
    note cong = run_finalizers_dictionaries_cong [OF b, of ?cs]
    note ih = snoc.IH [OF okws j']
    have run: "snd (run_finalizers (take j (rev (finalizers ?sk))) ?sk) =
         snd (run_finalizers ?cs (snd (fin ?c ?sk)))"
      by (simp add: fins Suc split_beta)
    have tk: "take (length (ws @ [v]) - j) (ws @ [v]) = take (length ws - j') ws"
      using Suc by simp
    from ih cong have bb: "dictionaries (snd (run_finalizers ?cs (snd (fin ?c ?sk)))) =
               dictionaries (inject_all raises request arg (take (length ws - j') ws))"
      by simp
    show ?thesis
      by (simp only: inject_all_snoc run tk bb)
  qed
qed

text \<open>
  Claim C6, as amended. A name may be injected any number of times in one invocation.
  When the finalizers run in reverse order of registration, none raises, and after the \<open>j\<close> most
  recent ones have run the bindings (in particular the active definition of the name and
  \<^verbatim>\<open>names_closure\<close>) are those of the request immediately before the \<open>j\<close>-th most recent
  injection, that is after the first \<open>length vs - j\<close> injections: each finalizer restores
  what existed just before its own inject call. As long as an injection of the name
  remains (\<open>j < length vs\<close>) the two dictionaries and \<^verbatim>\<open>names_closure\<close> are restored exactly;
  the finalizer of the first injection restores them up to \<^verbatim>\<open>get\<close>, as in C1.
\<close>

theorem inject_fixture_stacks:
  assumes "fresh_ids request" and "\<forall>v\<in>set vs. raises arg v = None" and "j \<le> length vs"
  shows "fst (run_finalizers (take j (rev (finalizers (inject_all raises request arg vs))))
           (inject_all raises request arg vs)) = []
    \<and> bindings (snd (run_finalizers (take j (rev (finalizers (inject_all raises request arg vs))))
           (inject_all raises request arg vs)))
        = bindings (inject_all raises request arg (take (length vs - j) vs))
    \<and> dict_get (fixture_defs (snd (run_finalizers
           (take j (rev (finalizers (inject_all raises request arg vs))))
           (inject_all raises request arg vs)))) arg
        = dict_get (fixture_defs (inject_all raises request arg (take (length vs - j) vs))) arg
    \<and> names_closure (snd (run_finalizers
           (take j (rev (finalizers (inject_all raises request arg vs))))
           (inject_all raises request arg vs)))
        = names_closure (inject_all raises request arg (take (length vs - j) vs))
    \<and> (j < length vs \<longrightarrow>
         dictionaries (snd (run_finalizers
           (take j (rev (finalizers (inject_all raises request arg vs))))
           (inject_all raises request arg vs)))
        = dictionaries (inject_all raises request arg (take (length vs - j) vs)))"
proof -
  note s = run_finalizers_stack [of request vs raises arg j, OF assms]
  note x = run_finalizers_stack_exact [of request vs raises arg j, OF assms(1) assms(2)]
  from s have b: "bindings (snd (run_finalizers
           (take j (rev (finalizers (inject_all raises request arg vs))))
           (inject_all raises request arg vs)))
        = bindings (inject_all raises request arg (take (length vs - j) vs))"
    by (rule conjunct2)
  from b have d: "dict_get (fixture_defs (snd (run_finalizers
           (take j (rev (finalizers (inject_all raises request arg vs))))
           (inject_all raises request arg vs))))
        = dict_get (fixture_defs (inject_all raises request arg (take (length vs - j) vs)))"
    by (simp add: bindings_def)
  from b have n: "names_closure (snd (run_finalizers
           (take j (rev (finalizers (inject_all raises request arg vs))))
           (inject_all raises request arg vs)))
        = names_closure (inject_all raises request arg (take (length vs - j) vs))"
    by (simp add: bindings_def)
  from s d n x show ?thesis by simp
qed

text \<open>
  Two injections of \<^verbatim>\<open>foo\<close>: the second value is active; after the finalizer of the second
  injection the first value is active again and the bindings are those after the first
  injection alone.
\<close>

theorem inject_fixture_stacks_witness:
  "fresh_ids (empty_request :: string FixtureRequest)
   \<and> never_raises ''foo'' ''first'' = None \<and> never_raises ''foo'' ''second'' = None
   \<and> (1 :: nat) \<le> length [''first'', ''second'']
   \<and> getfixturevalue (inject_all never_raises (empty_request :: string FixtureRequest) ''foo''
         [''first'', ''second'']) ''foo'' = Inr ''second''
   \<and> getfixturevalue (snd (run_finalizers
         (take 1 (rev (finalizers (inject_all never_raises (empty_request :: string FixtureRequest)
            ''foo'' [''first'', ''second'']))))
         (inject_all never_raises (empty_request :: string FixtureRequest) ''foo''
            [''first'', ''second'']))) ''foo'' = Inr ''first''
   \<and> bindings (snd (run_finalizers
         (take 1 (rev (finalizers (inject_all never_raises (empty_request :: string FixtureRequest)
            ''foo'' [''first'', ''second'']))))
         (inject_all never_raises (empty_request :: string FixtureRequest) ''foo''
            [''first'', ''second''])))
       = bindings (inject_all never_raises (empty_request :: string FixtureRequest) ''foo''
            [''first''])"
proof -
  let ?e = "empty_request :: string FixtureRequest"
  let ?s2 = "inject_all never_raises ?e ''foo'' [''first'', ''second'']"
  have h1: "fresh_ids ?e" by (rule fresh_ids_empty)
  have h2: "\<forall>v\<in>set [''first'', ''second'']. never_raises ''foo'' v = None"
    by (simp add: never_raises_def)
  have h3: "(1 :: nat) \<le> length [''first'', ''second'']" by simp
  note t = inject_fixture_stacks [of ?e "[''first'', ''second'']" never_raises "''foo''" 1,
      OF h1 h2 h3]
  from t have b: "bindings (snd (run_finalizers (take 1 (rev (finalizers ?s2))) ?s2))
       = bindings (inject_all never_raises ?e ''foo'' [''first''])"
    by simp
  have n: "never_raises ''foo'' ''first'' = None" "never_raises ''foo'' ''second'' = None"
    by (simp_all add: never_raises_def)
  have g2: "getfixturevalue ?s2 ''foo'' = Inr ''second''"
    by (simp add: inject_fixture_state n getfixturevalue_def injected_fd_def)
  have g1: "getfixturevalue (snd (run_finalizers (take 1 (rev (finalizers ?s2))) ?s2)) ''foo''
      = Inr ''first''"
    by (simp add: inject_fixture_state n getfixturevalue_def injected_fd_def registered_fin_def
        fin_def dict_get_def dict_get_list_def in_fixturenames_def empty_request_def Let_def)
  from h1 n h3 g2 g1 b show ?thesis by (intro conjI)
qed

text \<open>
  Claim C6 as stated fails at the finalizer of the first injection: after two injections
  of a name with no prior entry and both finalizers, in reverse order and with no raise,
  \<^verbatim>\<open>_fixture_defs\<close> binds the name to \<^verbatim>\<open>None\<close> and \<^verbatim>\<open>_arg2fixturedefs\<close> binds it to the empty
  list, where neither dictionary had the key before the first inject call, and the name
  is in \<^verbatim>\<open>request.fixturenames\<close>, where it was not.
\<close>

theorem inject_fixture_stacks_counterexample:
  "fst (run_finalizers
      (take 2 (rev (finalizers (inject_all never_raises (empty_request :: string FixtureRequest)
         ''foo'' [''first'', ''second'']))))
      (inject_all never_raises (empty_request :: string FixtureRequest) ''foo''
         [''first'', ''second''])) = []
   \<and> fixture_defs (snd (run_finalizers
      (take 2 (rev (finalizers (inject_all never_raises (empty_request :: string FixtureRequest)
         ''foo'' [''first'', ''second'']))))
      (inject_all never_raises (empty_request :: string FixtureRequest) ''foo''
         [''first'', ''second'']))) ''foo'' = Some None
   \<and> fixture_defs (empty_request :: string FixtureRequest) ''foo'' = None
   \<and> arg2fixturedefs (snd (run_finalizers
      (take 2 (rev (finalizers (inject_all never_raises (empty_request :: string FixtureRequest)
         ''foo'' [''first'', ''second'']))))
      (inject_all never_raises (empty_request :: string FixtureRequest) ''foo''
         [''first'', ''second'']))) ''foo'' = Some []
   \<and> arg2fixturedefs (empty_request :: string FixtureRequest) ''foo'' = None
   \<and> in_fixturenames ''foo'' (snd (run_finalizers
      (take 2 (rev (finalizers (inject_all never_raises (empty_request :: string FixtureRequest)
         ''foo'' [''first'', ''second'']))))
      (inject_all never_raises (empty_request :: string FixtureRequest) ''foo''
         [''first'', ''second''])))
   \<and> \<not> in_fixturenames ''foo'' (empty_request :: string FixtureRequest)
   \<and> dictionaries (snd (run_finalizers
      (take 2 (rev (finalizers (inject_all never_raises (empty_request :: string FixtureRequest)
         ''foo'' [''first'', ''second'']))))
      (inject_all never_raises (empty_request :: string FixtureRequest) ''foo''
         [''first'', ''second''])))
       \<noteq> dictionaries (empty_request :: string FixtureRequest)"
proof -
  let ?e = "empty_request :: string FixtureRequest"
  let ?s2 = "inject_all never_raises ?e ''foo'' [''first'', ''second'']"
  let ?run = "run_finalizers (take 2 (rev (finalizers ?s2))) ?s2"
  have n: "never_raises ''foo'' ''first'' = None" "never_raises ''foo'' ''second'' = None"
    by (simp_all add: never_raises_def)
  have r: "fst ?run = []"
    by (simp add: inject_fixture_state n injected_fd_def registered_fin_def
        fin_def dict_get_def dict_get_list_def in_fixturenames_def empty_request_def Let_def)
  have a: "fixture_defs (snd ?run) ''foo'' = Some None"
    by (simp add: inject_fixture_state n injected_fd_def registered_fin_def
        fin_def dict_get_def dict_get_list_def in_fixturenames_def empty_request_def Let_def)
  have b: "fixture_defs ?e ''foo'' = None" by (simp add: empty_request_def)
  have c: "arg2fixturedefs (snd ?run) ''foo'' = Some []"
    by (simp add: inject_fixture_state n injected_fd_def registered_fin_def
        fin_def dict_get_def dict_get_list_def in_fixturenames_def empty_request_def Let_def)
  have d: "arg2fixturedefs ?e ''foo'' = None" by (simp add: empty_request_def)
  from a have g: "in_fixturenames ''foo'' (snd ?run)" by (simp add: in_fixturenames_def)
  have h: "\<not> in_fixturenames ''foo'' ?e" by (simp add: in_fixturenames_def empty_request_def)
  from a b have "fixture_defs (snd ?run) \<noteq> fixture_defs ?e" by (metis option.distinct(1))
  then have x: "dictionaries (snd ?run) \<noteq> dictionaries ?e" by (simp add: dictionaries_def)
  from r a b c d g h x show ?thesis by (intro conjI)
qed

subsection \<open>Resolution and execution of a step line\<close>

text \<open>
  The resolution loop belongs to the scenario-execution part of the package
  (\<^verbatim>\<open>pytest_bdd/scenario.py\<close>), which is not among the sources: only its tests are. The
  definitions of this subsection follow sections 2, 4.3, 6 and 7 of the specification.

  Modelled from the spec: a step implementation, as far as execution sees it. It declares
  parameter names and, called with keyword arguments, returns a value or raises.
\<close>

record 'v step_function =
  parameters :: "string list"
  invoke :: "(string \<rightharpoonup> 'v) \<Rightarrow> error + 'v"

text \<open>
  Modelled from the spec: the step definition contexts that a scope exposes, each
  retrieved through the zero-argument accessor of its registered entry, in the order of
  the scope (the order of registration).
\<close>

fun step_contexts :: "('f, 'v) namespace \<Rightarrow> ('f, 'v) StepFunctionContext list" where
  "step_contexts [] = []"
| "step_contexts ((k, Fixture n m) # ns) = call m () # step_contexts ns"
| "step_contexts ((k, Function f) # ns) = step_contexts ns"

text \<open>
  Modelled from the spec: the candidates for a step line are all contexts of the line's
  category whose parser matches the text; there is no choice of a most specific one.
\<close>

definition matching_contexts ::
  "('f, 'v) namespace \<Rightarrow> string \<Rightarrow> string \<Rightarrow> ('f, 'v) StepFunctionContext list" where
  "matching_contexts ns category text =
     filter (\<lambda>c. type c = category \<and> match (parser c) text \<noteq> None) (step_contexts ns)"

text \<open>
  Modelled from the spec: converters are applied to the extracted arguments, by argument
  name, after extraction and before invocation; a converter that raises makes the step
  fail.
\<close>

fun convert_arguments ::
  "(string \<rightharpoonup> ('v \<Rightarrow> error + 'v)) \<Rightarrow> (string \<times> 'v) list \<Rightarrow> error + (string \<times> 'v) list" where
  "convert_arguments convs [] = Inr []"
| "convert_arguments convs ((a, x) # rest) =
     (case (case convs a of None \<Rightarrow> Inr x | Some conv \<Rightarrow> conv x) of
        Inl e \<Rightarrow> Inl e
      | Inr y \<Rightarrow>
         (case convert_arguments convs rest of
            Inl e \<Rightarrow> Inl e
          | Inr ys \<Rightarrow> Inr ((a, y) # ys)))"

text \<open>
  Modelled from the spec: the value of each declared parameter is the extracted argument
  of that name; a parameter that is neither extracted nor under a converter is requested
  by name from the request. (The spec gives no value to a parameter under a converter
  that was not extracted; the call then lacks an argument.)
\<close>

fun bind_arguments ::
  "'v FixtureRequest \<Rightarrow> (string \<rightharpoonup> ('v \<Rightarrow> error + 'v)) \<Rightarrow> (string \<times> 'v) list \<Rightarrow> string list
   \<Rightarrow> error + (string \<times> 'v) list" where
  "bind_arguments request convs args [] = Inr []"
| "bind_arguments request convs args (p # ps) =
     (case (case map_of args p of
              Some x \<Rightarrow> Inr x
            | None \<Rightarrow> (if convs p \<noteq> None then Inl (Raised ''missing argument'')
                       else getfixturevalue request p)) of
        Inl e \<Rightarrow> Inl e
      | Inr x \<Rightarrow>
         (case bind_arguments request convs args ps of
            Inl e \<Rightarrow> Inl e
          | Inr kwargs \<Rightarrow> Inr ((p, x) # kwargs)))"

text \<open>
  Modelled from the spec: execution of one matching context. The parser's arguments are
  converted and bound, the implementation is called, and when the context declares a
  target name the returned value is published with \<open>inject_fixture\<close>. Every failure is
  that of the step.
\<close>

definition execute_context ::
  "(string \<Rightarrow> 'v \<Rightarrow> error option) \<Rightarrow> 'v FixtureRequest \<Rightarrow> string
   \<Rightarrow> ('v step_function, 'v) StepFunctionContext \<Rightarrow> (error + 'v) \<times> 'v FixtureRequest" where
  "execute_context raises request text ctx =
     (case match (parser ctx) text of
        None \<Rightarrow> (Inl StepDefinitionNotFound, request)
      | Some args \<Rightarrow>
         (case convert_arguments (converters ctx) args of
            Inl e \<Rightarrow> (Inl e, request)
          | Inr converted \<Rightarrow>
             (case bind_arguments request (converters ctx) converted (parameters (step_func ctx)) of
                Inl e \<Rightarrow> (Inl e, request)
              | Inr kwargs \<Rightarrow>
                 (case invoke (step_func ctx) (map_of kwargs) of
                    Inl e \<Rightarrow> (Inl e, request)
                  | Inr ret \<Rightarrow>
                     (case target_fixture ctx of
                        None \<Rightarrow> (Inr ret, request)
                      | Some target \<Rightarrow>
                         (case inject_fixture raises request target ret of
                            (Inl e, request') \<Rightarrow> (Inl e, request')
                          | (Inr u, request') \<Rightarrow> (Inr ret, request')))))))"

text \<open>
  Modelled from the spec: the candidates execute one after the other, in the order
  given; a failure is surfaced at once and ends the step. The result lists the contexts
  that executed, each with the value it returned.
\<close>

fun execute_contexts ::
  "(string \<Rightarrow> 'v \<Rightarrow> error option) \<Rightarrow> 'v FixtureRequest \<Rightarrow> string
   \<Rightarrow> ('v step_function, 'v) StepFunctionContext list
   \<Rightarrow> error option \<times> (('v step_function, 'v) StepFunctionContext \<times> 'v) list \<times> 'v FixtureRequest" where
  "execute_contexts raises request text [] = (None, [], request)"
| "execute_contexts raises request text (c # cs) =
     (case execute_context raises request text c of
        (Inl e, request') \<Rightarrow> (Some e, [], request')
      | (Inr ret, request') \<Rightarrow>
         (case execute_contexts raises request' text cs of
            (failure, executed, request'') \<Rightarrow> (failure, (c, ret) # executed, request'')))"

text \<open>
  Modelled from the spec: execution of a step line with a category and a text. No
  candidate is a lookup failure.
\<close>

definition execute_step ::
  "(string \<Rightarrow> 'v \<Rightarrow> error option) \<Rightarrow> 'v FixtureRequest \<Rightarrow> ('v step_function, 'v) namespace
   \<Rightarrow> string \<Rightarrow> string
   \<Rightarrow> error option \<times> (('v step_function, 'v) StepFunctionContext \<times> 'v) list \<times> 'v FixtureRequest" where
  "execute_step raises request ns category text =
     (let candidates = matching_contexts ns category text
      in if candidates = [] then (Some StepDefinitionNotFound, [], request)
         else execute_contexts raises request text candidates)"

subsection \<open>Properties of step execution\<close>

lemma execute_contexts_prefix:
  "\<exists>k\<le>length cs. map fst (fst (snd (execute_contexts raises request text cs))) = take k cs"
proof (induction cs arbitrary: request)
  case Nil
  then show ?case by simp
next
  case (Cons c cs)
  show ?case
  proof (cases "execute_context raises request text c")
    case (Pair r request')
    show ?thesis
    proof (cases r)
      case (Inl e)
      with Pair have "map fst (fst (snd (execute_contexts raises request text (c # cs)))) = take 0 (c # cs)"
        by simp
      then show ?thesis by blast
    next
      case (Inr ret)
      from Cons.IH [of request'] obtain k where k: "k \<le> length cs"
        "map fst (fst (snd (execute_contexts raises request' text cs))) = take k cs" by blast
      with Pair Inr have "map fst (fst (snd (execute_contexts raises request text (c # cs))))
          = take (Suc k) (c # cs)"
        by (simp add: split_beta)
      with k(1) show ?thesis by (metis Suc_le_mono length_Cons)
    qed
  qed
qed

lemma execute_contexts_all:
  "fst (execute_contexts raises request text cs) = None \<Longrightarrow>
     map fst (fst (snd (execute_contexts raises request text cs))) = cs"
proof (induction cs arbitrary: request)
  case Nil
  then show ?case by simp
next
  case (Cons c cs)
  show ?case
  proof (cases "execute_context raises request text c")
    case (Pair r request')
    show ?thesis
    proof (cases r)
      case (Inl e)
      with Pair Cons.prems show ?thesis by simp
    next
      case (Inr ret)
      with Pair Cons.prems have "fst (execute_contexts raises request' text cs) = None"
        by (simp add: split_beta)
      from Cons.IH [OF this] Pair Inr show ?thesis by (simp add: split_beta)
    qed
  qed
qed

lemma getfixturevalue_after_inject:
  assumes "inject_fixture raises request arg v = (Inr u, request')"
  shows "getfixturevalue request' arg = Inr v"
proof (cases "raises arg v")
  case None
  note st = inject_fixture_state [of raises arg v request, OF None]
  with assms have "request' = snd (inject_fixture raises request arg v)" by simp
  then show ?thesis by (simp add: st getfixturevalue_def injected_fd_def)
next
  case (Some e)
  with assms show ?thesis by (simp add: inject_fixture_fails)
qed

lemma execute_context_publishes:
  assumes "execute_context raises request text c = (Inr ret, request')"
    and "target_fixture c = Some target"
  shows "getfixturevalue request' target = Inr ret"
proof -
  from assms obtain u where "inject_fixture raises request target ret = (Inr u, request')"
    by (auto simp: execute_context_def split: option.splits sum.splits prod.splits)
  then show ?thesis by (rule getfixturevalue_after_inject)
qed

lemma step_contexts_append: "step_contexts (xs @ ys) = step_contexts xs @ step_contexts ys"
  by (induction xs rule: step_contexts.induct) simp_all

lemma execute_step_single:
  assumes none: "fst (execute_step raises request ns category text) = None"
    and one: "matching_contexts ns category text = [c]"
  shows "\<exists>ret. fst (snd (execute_step raises request ns category text)) = [(c, ret)]
      \<and> (\<forall>target. target_fixture c = Some target \<longrightarrow>
            getfixturevalue (snd (snd (execute_step raises request ns category text))) target
              = Inr ret)"
proof (cases "execute_context raises request text c")
  case (Pair r request')
  show ?thesis
  proof (cases r)
    case (Inl e)
    with Pair none one show ?thesis by (simp add: execute_step_def)
  next
    case (Inr ret)
    with Pair one have ex: "execute_step raises request ns category text
        = (None, [(c, ret)], request')"
      by (simp add: execute_step_def)
    from Pair Inr have ec: "execute_context raises request text c = (Inr ret, request')" by simp
    have "\<forall>target. target_fixture c = Some target \<longrightarrow> getfixturevalue request' target = Inr ret"
      using execute_context_publishes [OF ec] by blast
    with ex show ?thesis by simp
  qed
qed

text \<open>
  Claim C4. For every step line: the contexts that execute are, in order, an initial part
  of the matching contexts in registration order, so no other definition runs and none
  runs out of order. When the step raises nothing, at least one definition matched and
  every matching definition executed, in registration order, whatever their number and
  specificity. When exactly one definition matches and the step raises nothing, that
  definition alone executed, and if it declares a target name the value it returned is
  what the request yields for that name afterwards. The enumeration order is the
  registration order: a decorator puts its context at the end of the contexts of the
  caller's scope.
\<close>

theorem execute_step_runs_every_match:
  "(\<exists>k\<le>length (matching_contexts ns category text).
      map fst (fst (snd (execute_step raises request ns category text)))
        = take k (matching_contexts ns category text))
   \<and> (fst (execute_step raises request ns category text) = None \<longrightarrow>
        matching_contexts ns category text \<noteq> []
        \<and> map fst (fst (snd (execute_step raises request ns category text)))
            = matching_contexts ns category text)
   \<and> (\<forall>c. fst (execute_step raises request ns category text) = None
          \<and> matching_contexts ns category text = [c] \<longrightarrow>
        (\<exists>ret. fst (snd (execute_step raises request ns category text)) = [(c, ret)]
           \<and> (\<forall>target. target_fixture c = Some target \<longrightarrow>
                 getfixturevalue (snd (snd (execute_step raises request ns category text))) target
                   = Inr ret)))
   \<and> step_contexts (snd (step_decorator t sn cv tf caller f ms) caller)
        = step_contexts (ms caller) @
            [\<lparr>type = t, step_func = f, parser = get_parser sn,
              converters = (case cv of None \<Rightarrow> Map.empty | Some m \<Rightarrow> m),
              target_fixture = tf\<rparr>]"
proof (intro conjI)
  show "\<exists>k\<le>length (matching_contexts ns category text).
      map fst (fst (snd (execute_step raises request ns category text)))
        = take k (matching_contexts ns category text)"
  proof (cases "matching_contexts ns category text = []")
    case True
    then show ?thesis by (simp add: execute_step_def)
  next
    case False
    then show ?thesis
      using execute_contexts_prefix [of "matching_contexts ns category text" raises request "text"]
      by (simp add: execute_step_def)
  qed
  show "fst (execute_step raises request ns category text) = None \<longrightarrow>
        matching_contexts ns category text \<noteq> []
        \<and> map fst (fst (snd (execute_step raises request ns category text)))
            = matching_contexts ns category text"
  proof (cases "matching_contexts ns category text = []")
    case True
    then show ?thesis by (simp add: execute_step_def)
  next
    case False
    then show ?thesis
      using execute_contexts_all [of raises request "text" "matching_contexts ns category text"]
      by (simp add: execute_step_def)
  qed
  show "\<forall>c. fst (execute_step raises request ns category text) = None
          \<and> matching_contexts ns category text = [c] \<longrightarrow>
        (\<exists>ret. fst (snd (execute_step raises request ns category text)) = [(c, ret)]
           \<and> (\<forall>target. target_fixture c = Some target \<longrightarrow>
                 getfixturevalue (snd (snd (execute_step raises request ns category text))) target
                   = Inr ret))"
    using execute_step_single by blast
  show "step_contexts (snd (step_decorator t sn cv tf caller f ms) caller)
        = step_contexts (ms caller) @
            [\<lparr>type = t, step_func = f, parser = get_parser sn,
              converters = (case cv of None \<Rightarrow> Map.empty | Some m \<Rightarrow> m),
              target_fixture = tf\<rparr>]"
    by (simp add: step_decorator_result decorator_result step_contexts_append)
qed

text \<open>
  The module of \<^verbatim>\<open>test_given_injection\<close> (the text of the Then step is written without its
  inner quotes): a Given step that returns \<^verbatim>\<open>"injected foo"\<close> with target fixture \<^verbatim>\<open>foo\<close>,
  and a Then step that requests \<^verbatim>\<open>foo\<close> and asserts its value.
\<close>

definition given_impl :: "string option step_function" where
  "given_impl = \<lparr>parameters = [], invoke = (\<lambda>kwargs. Inr (Some ''injected foo''))\<rparr>"

definition then_impl :: "string option step_function" where
  "then_impl = \<lparr>parameters = [''foo''],
      invoke = (\<lambda>kwargs. if kwargs ''foo'' = Some (Some ''injected foo'') then Inr None
                         else Inl AssertionError)\<rparr>"

definition given_ctx :: "(string option step_function, string option) StepFunctionContext" where
  "given_ctx = \<lparr>type = ''given'', step_func = given_impl,
      parser = string_parser ''I have injecting given'', converters = Map.empty,
      target_fixture = Some ''foo''\<rparr>"

definition then_ctx :: "(string option step_function, string option) StepFunctionContext" where
  "then_ctx = \<lparr>type = ''then'', step_func = then_impl,
      parser = string_parser ''foo should be injected foo'', converters = Map.empty,
      target_fixture = None\<rparr>"

definition test_given_module :: "(string option step_function, string option) namespace" where
  "test_given_module =
     snd (then' (Inl ''foo should be injected foo'') None None ''test_given'' then_impl
       (snd (given (Inl ''I have injecting given'') None (Some ''foo'') ''test_given'' given_impl
          (\<lambda>_. [])))) ''test_given''"

lemma test_given_module_contexts: "step_contexts test_given_module = [given_ctx, then_ctx]"
  by (simp add: test_given_module_def given_def then'_def step_decorator_result decorator_result
      step_contexts_append get_parser_def GIVEN_def THEN_def given_ctx_def then_ctx_def)

lemma test_given_module_given:
  "matching_contexts test_given_module ''given'' ''I have injecting given'' = [given_ctx]"
  by (simp add: matching_contexts_def test_given_module_contexts)
     (simp add: given_ctx_def then_ctx_def string_parser_def)

lemma test_given_module_then:
  "matching_contexts test_given_module ''then'' ''foo should be injected foo'' = [then_ctx]"
  by (simp add: matching_contexts_def test_given_module_contexts)
     (simp add: given_ctx_def then_ctx_def string_parser_def)

lemma test_given_step_given:
  "fst (execute_step never_raises (empty_request :: string option FixtureRequest)
     test_given_module ''given'' ''I have injecting given'') = None"
  by (simp add: execute_step_def test_given_module_given)
     (simp add: execute_context_def given_ctx_def string_parser_def given_impl_def
        inject_fixture_state never_raises_def)

text \<open>A module that registers two definitions for the same Given text.\<close>

definition first_impl :: "string option step_function" where
  "first_impl = \<lparr>parameters = [], invoke = (\<lambda>kwargs. Inr (Some ''first''))\<rparr>"

definition second_impl :: "string option step_function" where
  "second_impl = \<lparr>parameters = [], invoke = (\<lambda>kwargs. Inr (Some ''second''))\<rparr>"

definition two_matches_module :: "(string option step_function, string option) namespace" where
  "two_matches_module =
     snd (given (Inl ''I have a bar'') None None ''test_bar'' second_impl
       (snd (given (Inl ''I have a bar'') None None ''test_bar'' first_impl
          (\<lambda>_. [])))) ''test_bar''"

lemma two_matches_module_contexts:
  "step_contexts two_matches_module =
     [\<lparr>type = ''given'', step_func = first_impl, parser = string_parser ''I have a bar'',
        converters = Map.empty, target_fixture = None\<rparr>,
      \<lparr>type = ''given'', step_func = second_impl, parser = string_parser ''I have a bar'',
        converters = Map.empty, target_fixture = None\<rparr>]"
  by (simp add: two_matches_module_def given_def step_decorator_result decorator_result
      step_contexts_append get_parser_def GIVEN_def)

lemma two_matches_module_run:
  "map snd (fst (snd (execute_step never_raises (empty_request :: string option FixtureRequest)
      two_matches_module ''given'' ''I have a bar''))) = [Some ''first'', Some ''second'']"
  by (simp add: execute_step_def matching_contexts_def two_matches_module_contexts)
     (simp add: execute_context_def string_parser_def first_impl_def second_impl_def)

text \<open>
  The Given step of the module executes its one matching definition and publishes
  \<^verbatim>\<open>foo\<close>; the Then step that follows receives the published value and passes. In the
  module with two definitions for one text, both execute, first registered first.
\<close>

theorem execute_step_runs_every_match_witness:
  "fst (execute_step never_raises (empty_request :: string option FixtureRequest)
     test_given_module ''given'' ''I have injecting given'') = None
   \<and> matching_contexts test_given_module ''given'' ''I have injecting given'' = [given_ctx]
   \<and> map fst (fst (snd (execute_step never_raises (empty_request :: string option FixtureRequest)
        test_given_module ''given'' ''I have injecting given''))) = [given_ctx]
   \<and> target_fixture given_ctx = Some ''foo''
   \<and> getfixturevalue (snd (snd (execute_step never_raises
        (empty_request :: string option FixtureRequest)
        test_given_module ''given'' ''I have injecting given''))) ''foo''
       = Inr (Some ''injected foo'')
   \<and> execute_step never_raises (snd (snd (execute_step never_raises
        (empty_request :: string option FixtureRequest)
        test_given_module ''given'' ''I have injecting given'')))
        test_given_module ''then'' ''foo should be injected foo''
       = (None, [(then_ctx, None)], snd (snd (execute_step never_raises
        (empty_request :: string option FixtureRequest)
        test_given_module ''given'' ''I have injecting given'')))
   \<and> map snd (fst (snd (execute_step never_raises (empty_request :: string option FixtureRequest)
        two_matches_module ''given'' ''I have a bar''))) = [Some ''first'', Some ''second'']"
proof -
  let ?e = "empty_request :: string option FixtureRequest"
  let ?r = "execute_step never_raises ?e test_given_module ''given'' ''I have injecting given''"
  note t = execute_step_runs_every_match [of test_given_module "''given''"
      "''I have injecting given''" never_raises ?e]
  note h1 = test_given_step_given
  note h2 = test_given_module_given
  note t2 = t [THEN conjunct2, THEN conjunct1, THEN mp, OF h1]
  note t3 = t [THEN conjunct2, THEN conjunct2, THEN conjunct1, THEN spec, of given_ctx,
      THEN mp, OF conjI, OF h1 h2]
  from t2 h2 have all: "map fst (fst (snd ?r)) = [given_ctx]" by simp
  from t3 obtain ret where ret: "fst (snd ?r) = [(given_ctx, ret)]"
    and pub: "\<forall>target. target_fixture given_ctx = Some target \<longrightarrow>
        getfixturevalue (snd (snd ?r)) target = Inr ret"
    by blast
  have tf: "target_fixture given_ctx = Some ''foo''" by (simp add: given_ctx_def)
  have "fst (snd ?r) = [(given_ctx, Some ''injected foo'')]"
    by (simp add: execute_step_def test_given_module_given)
       (simp add: execute_context_def given_ctx_def string_parser_def given_impl_def
          inject_fixture_state never_raises_def)
  with ret have "ret = Some ''injected foo''" by simp
  with pub tf have g: "getfixturevalue (snd (snd ?r)) ''foo'' = Inr (Some ''injected foo'')"
    by simp
  have th: "execute_step never_raises (snd (snd ?r)) test_given_module ''then''
      ''foo should be injected foo'' = (None, [(then_ctx, None)], snd (snd ?r))"
    using g
    by (simp add: execute_step_def test_given_module_then)
       (simp add: execute_context_def then_ctx_def string_parser_def then_impl_def)
  from h1 h2 all tf g th two_matches_module_run show ?thesis by (intro conjI)
qed

end
